theory Spec2Isabelle
  imports Complex_Main
begin

section \<open>JavaScript numbers\<close>

text \<open>
  The sizes, offsets and part counts of \<^verbatim>\<open>multi_transport.js\<close> are JavaScript numbers:
  binary64 floating point values that hold integers (byte counts from \<^verbatim>\<open>fs.statSync\<close>, part
  sizes and \<^verbatim>\<open>maxParts\<close> from the service, an array length). An \<open>int\<close> stands for the
  double of that value; every sum, difference and quotient is rounded as the machine rounds
  it (to the nearest double, ties to the even mantissa), so that beyond \<open>2 ^ 53\<close> the model
  loses the precision the code loses. A result that leaves the doubles is \<^verbatim>\<open>Infinity\<close>,
  \<^verbatim>\<open>-Infinity\<close> or \<^verbatim>\<open>NaN\<close>.
\<close>

datatype jsnum = Num int | PosInfinity | NegInfinity | NaN

text \<open>The number of binary digits of a natural number.\<close>

function bit_length :: "nat \<Rightarrow> nat" where
  "bit_length n = (if n = 0 then 0 else Suc (bit_length (n div 2)))"
  by pat_completeness auto
termination
  by (relation "measure id") auto

text \<open>The integer nearest to \<open>x / y\<close> for \<open>y > 0\<close>, the even one of two that are equally
  near.\<close>

definition round_half_even :: "int \<Rightarrow> int \<Rightarrow> int" where
  "round_half_even x y =
     (let f = x div y; r = x mod y
      in if 2 * r < y \<or> (2 * r = y \<and> even f) then f else f + 1)"

text \<open>
  The double nearest to an integer. Up to \<open>2 ^ 53\<close> every integer is a double. A larger
  \<open>x\<close> of \<open>n\<close> binary digits lies between doubles \<open>2 ^ (n - 53)\<close> apart (53 digits of
  mantissa) and is rounded to a multiple of that.
\<close>

definition round_int :: "int \<Rightarrow> int" where
  "round_int x =
     (if \<bar>x\<bar> \<le> 2 ^ 53 then x
      else let u = 2 ^ (bit_length (nat \<bar>x\<bar>) - 53)
           in sgn x * (round_half_even \<bar>x\<bar> u * u))"

text \<open>A rounded integer as a number: from \<open>2 ^ 1024\<close> on it has overflowed.\<close>

definition fin :: "int \<Rightarrow> jsnum" where
  "fin x = (if 2 ^ 1024 \<le> x then PosInfinity
            else if x \<le> - (2 ^ 1024) then NegInfinity else Num x)"

text \<open>
  \<^verbatim>\<open>Math.ceil(a / b)\<close>. For positive \<open>x\<close> and \<open>y\<close>, \<open>quot_exp x y\<close> is the binary exponent
  \<open>e\<close> of the quotient (\<open>2 ^ e \<le> x / y < 2 ^ (e + 1)\<close>); the double nearest to \<open>x / y\<close> is a
  multiple of \<open>2 ^ s\<close> with \<open>s = e - 52\<close> (\<open>- 1074\<close> for the subnormal numbers), namely
  \<open>round_half_even\<close> of \<open>x / (y * 2 ^ s)\<close> times \<open>2 ^ s\<close>. \<open>ceil_fl\<close> and \<open>floor_fl\<close> are the
  ceiling and the floor of that double. A negative quotient is rounded as its absolute value
  is, and \<^verbatim>\<open>Math.ceil(-x)\<close> is \<open>- floor x\<close> (a \<^verbatim>\<open>-0\<close> is the number 0). The divisor is a
  difference of numbers, so a zero divisor is \<^verbatim>\<open>+0\<close>.
\<close>

definition quot_exp :: "int \<Rightarrow> int \<Rightarrow> int" where
  "quot_exp x y =
     (if y \<le> x then int (bit_length (nat (x div y))) - 1
      else - int (bit_length (nat (- ((- y) div x) - 1))))"

definition ceil_fl :: "int \<Rightarrow> int \<Rightarrow> int" where
  "ceil_fl x y =
     (let s = max (quot_exp x y - 52) (- 1074) in
      if 0 \<le> s then round_half_even x (y * 2 ^ nat s) * 2 ^ nat s
      else - ((- round_half_even (x * 2 ^ nat (- s)) y) div 2 ^ nat (- s)))"

definition floor_fl :: "int \<Rightarrow> int \<Rightarrow> int" where
  "floor_fl x y =
     (let s = max (quot_exp x y - 52) (- 1074) in
      if 0 \<le> s then round_half_even x (y * 2 ^ nat s) * 2 ^ nat s
      else round_half_even (x * 2 ^ nat (- s)) y div 2 ^ nat (- s))"

definition ceil_quot :: "int \<Rightarrow> int \<Rightarrow> jsnum" where
  "ceil_quot a b =
     (if b = 0 then (if 0 < a then PosInfinity else if a < 0 then NegInfinity else NaN)
      else if a = 0 then Num 0
      else if (0 < a) = (0 < b) then fin (ceil_fl \<bar>a\<bar> \<bar>b\<bar>)
      else fin (- floor_fl \<bar>a\<bar> \<bar>b\<bar>))"

text \<open>\<^verbatim>\<open>Math.max\<close> and \<^verbatim>\<open>Math.min\<close>: \<^verbatim>\<open>NaN\<close> if either argument is \<^verbatim>\<open>NaN\<close>.\<close>

fun js_max :: "jsnum \<Rightarrow> jsnum \<Rightarrow> jsnum" where
  "js_max NaN y = NaN"
| "js_max x NaN = NaN"
| "js_max PosInfinity y = PosInfinity"
| "js_max x PosInfinity = PosInfinity"
| "js_max NegInfinity y = y"
| "js_max x NegInfinity = x"
| "js_max (Num a) (Num b) = Num (max a b)"

fun js_min :: "jsnum \<Rightarrow> jsnum \<Rightarrow> jsnum" where
  "js_min NaN y = NaN"
| "js_min x NaN = NaN"
| "js_min NegInfinity y = NegInfinity"
| "js_min x NegInfinity = NegInfinity"
| "js_min PosInfinity y = y"
| "js_min x PosInfinity = x"
| "js_min (Num a) (Num b) = Num (min a b)"

text \<open>\<open>x + y\<close> and \<open>x - y\<close>: the exact sum of two finite numbers, rounded.\<close>

fun js_add :: "jsnum \<Rightarrow> jsnum \<Rightarrow> jsnum" where
  "js_add NaN y = NaN"
| "js_add x NaN = NaN"
| "js_add PosInfinity NegInfinity = NaN"
| "js_add NegInfinity PosInfinity = NaN"
| "js_add PosInfinity y = PosInfinity"
| "js_add x PosInfinity = PosInfinity"
| "js_add NegInfinity y = NegInfinity"
| "js_add x NegInfinity = NegInfinity"
| "js_add (Num a) (Num b) = fin (round_int (a + b))"

fun js_neg :: "jsnum \<Rightarrow> jsnum" where
  "js_neg NaN = NaN"
| "js_neg PosInfinity = NegInfinity"
| "js_neg NegInfinity = PosInfinity"
| "js_neg (Num a) = Num (- a)"

definition js_sub :: "jsnum \<Rightarrow> jsnum \<Rightarrow> jsnum" where
  "js_sub x y = js_add x (js_neg y)"

text \<open>\<open>x > y\<close>: false as soon as one side is \<^verbatim>\<open>NaN\<close>.\<close>

fun js_gt :: "jsnum \<Rightarrow> jsnum \<Rightarrow> bool" where
  "js_gt NaN y = False"
| "js_gt x NaN = False"
| "js_gt PosInfinity PosInfinity = False"
| "js_gt PosInfinity y = True"
| "js_gt x PosInfinity = False"
| "js_gt NegInfinity y = False"
| "js_gt x NegInfinity = True"
| "js_gt (Num a) (Num b) = (b < a)"


section \<open>Part decomposition\<close>

text \<open>\<^verbatim>\<open>const kPartSize = 20 * 1024 * 1024;\<close>\<close>

definition kPartSize :: int where
  "kPartSize = 20 * 1024 * 1024"

text \<open>An entry of \<^verbatim>\<open>remainParts\<close>: \<^verbatim>\<open>{partNumber, partSize, start: offset}\<close>.\<close>

record part =
  partNumber :: int
  partSize :: jsnum
  start :: jsnum

text \<open>An entry of the \<^verbatim>\<open>parts\<close> array of the service's list-parts body; \<^verbatim>\<open>_decompose\<close> reads
  only the length of the array.\<close>

record uploaded_part =
  upPartNumber :: int
  size_bytes :: int

text \<open>
  The first two lines of \<^verbatim>\<open>_decompose\<close>:
  \<^verbatim>\<open>const minPartSize = Math.ceil(totalSize / (maxParts - orderedParts.length));\<close>
  \<^verbatim>\<open>const averagePartSize = Math.max(kPartSize, minPartSize);\<close>
  The difference in the divisor is rounded like every other; a double less an array length
  stays within the doubles.
\<close>

definition minPartSize :: "uploaded_part list \<Rightarrow> int \<Rightarrow> int \<Rightarrow> jsnum" where
  "minPartSize orderedParts maxParts totalSize =
     ceil_quot totalSize (round_int (maxParts - int (length orderedParts)))"

definition averagePartSize :: "uploaded_part list \<Rightarrow> int \<Rightarrow> int \<Rightarrow> jsnum" where
  "averagePartSize orderedParts maxParts totalSize =
     js_max (Num kPartSize) (minPartSize orderedParts maxParts totalSize)"

text \<open>
  The carving loop
  \<^verbatim>\<open>while (leftSize > 0) { const partSize = Math.min(leftSize, averagePartSize);\<close>
  \<^verbatim>\<open>  remainParts.push({partNumber, partSize, start: offset});\<close>
  \<^verbatim>\<open>  leftSize -= partSize; offset += partSize; partNumber += 1; }\<close>
  as a tail recursion on the loop variables. Nothing in the loop bounds the number of
  rounds, so a run that never leaves the loop is the value \<open>None\<close> (the engine ends such a
  run when the array can grow no more, without a list). \<^verbatim>\<open>leftSize\<close> and
  \<^verbatim>\<open>offset\<close> are rounded at every step; \<^verbatim>\<open>partNumber\<close> counts the entries of an array,
  which holds fewer than \<open>2 ^ 32\<close> of them, and stays exact.
\<close>

partial_function (option) decompose_loop ::
  "jsnum \<Rightarrow> jsnum \<Rightarrow> jsnum \<Rightarrow> int \<Rightarrow> part list \<Rightarrow> part list option" where
  "decompose_loop avgSize leftSize offset partNo remainParts =
     (if js_gt leftSize (Num 0) then
        (let psize = js_min leftSize avgSize in
           decompose_loop avgSize (js_sub leftSize psize) (js_add offset psize) (partNo + 1)
             (remainParts @ [\<lparr>partNumber = partNo, partSize = psize, start = offset\<rparr>]))
      else Some remainParts)"

definition decompose :: "uploaded_part list \<Rightarrow> int \<Rightarrow> int \<Rightarrow> int \<Rightarrow> part list option" where
  "decompose orderedParts maxParts uploadSize totalSize =
     decompose_loop (averagePartSize orderedParts maxParts totalSize)
       (js_sub (Num totalSize) (Num uploadSize)) (Num uploadSize)
       (int (length orderedParts) + 1) []"

text \<open>
  The list the loop pushes when the part size is a positive integer \<open>a\<close>, by recursion on
  the bytes left: the closed form used in the proofs below.
\<close>

function plan :: "int \<Rightarrow> int \<Rightarrow> int \<Rightarrow> int \<Rightarrow> part list" where
  "plan a l off n =
     (if 0 < l \<and> 0 < a then
        \<lparr>partNumber = n, partSize = Num (min l a), start = Num off\<rparr>
          # plan a (l - min l a) (off + min l a) (n + 1)
      else [])"
  by pat_completeness auto
termination
  by (relation "measure (\<lambda>(a, l, off, n). nat l)") auto

section \<open>Values thrown and caught\<close>

text \<open>
  A \<^verbatim>\<open>catch (ex)\<close> receives whatever was thrown or rejected: a primitive or an object.
  Objects carry a flag for \<^verbatim>\<open>instanceof Error\<close> and their properties, whose values are
  primitives here (the handler reads \<^verbatim>\<open>message\<close> and \<^verbatim>\<open>status_code\<close> only).
\<close>

datatype prim = JUndefined | JNull | JBool bool | JNum int | JStr string

datatype thrown = Prim prim | Obj bool "(string \<times> prim) list"

datatype 'a outcome = Returned 'a | Thrown thrown

text \<open>\<^verbatim>\<open>new Error(msg)\<close>, and the \<^verbatim>\<open>TypeError\<close> the engine throws on a property read of
  \<^verbatim>\<open>undefined\<close> or \<^verbatim>\<open>null\<close> and on \<^verbatim>\<open>in\<close> with a primitive on the right (its message
  text is the engine's; the model fixes one).\<close>

definition new_Error :: "string \<Rightarrow> thrown" where
  "new_Error msg = Obj True [(''message'', JStr msg)]"

definition TypeError :: thrown where
  "TypeError = new_Error ''TypeError''"

text \<open>\<^verbatim>\<open>err[name]\<close>: throws on \<^verbatim>\<open>undefined\<close> and \<^verbatim>\<open>null\<close>; the other primitives have neither
  of the two properties read here; an \<^verbatim>\<open>Error\<close> without an own \<^verbatim>\<open>message\<close> inherits the
  empty string from its prototype.\<close>

fun get_prop :: "thrown \<Rightarrow> string \<Rightarrow> prim outcome" where
  "get_prop (Prim JUndefined) name = Thrown TypeError"
| "get_prop (Prim JNull) name = Thrown TypeError"
| "get_prop (Prim v) name = Returned JUndefined"
| "get_prop (Obj isError props) name =
     (case map_of props name of
        Some v \<Rightarrow> Returned v
      | None \<Rightarrow> Returned (if isError \<and> name = ''message'' then JStr [] else JUndefined))"

text \<open>\<^verbatim>\<open>name in err\<close>: a \<^verbatim>\<open>TypeError\<close> unless \<open>err\<close> is an object.\<close>

fun has_prop :: "string \<Rightarrow> thrown \<Rightarrow> bool outcome" where
  "has_prop name (Prim v) = Thrown TypeError"
| "has_prop name (Obj isError props) =
     Returned (name \<in> fst ` set props \<or> (isError \<and> name = ''message''))"

fun instanceof_Error :: "thrown \<Rightarrow> bool" where
  "instanceof_Error (Prim v) = False"
| "instanceof_Error (Obj isError props) = isError"

fun is_string :: "prim \<Rightarrow> bool" where
  "is_string (JStr s) = True"
| "is_string v = False"

text \<open>Decimal digits of a natural number, and the string a template literal makes of a
  primitive.\<close>

function dec_nat :: "nat \<Rightarrow> string" where
  "dec_nat n = (if n < 10 then [''0123456789'' ! n]
                else dec_nat (n div 10) @ [''0123456789'' ! (n mod 10)])"
  by pat_completeness auto
termination
  by (relation "measure id") auto

fun to_string :: "prim \<Rightarrow> string" where
  "to_string JUndefined = ''undefined''"
| "to_string JNull = ''null''"
| "to_string (JBool b) = (if b then ''true'' else ''false'')"
| "to_string (JNum n) = (if n < 0 then ''-'' @ dec_nat (nat (- n)) else dec_nat (nat n))"
| "to_string (JStr s) = s"

text \<open>Truthiness of a value that is a string or \<^verbatim>\<open>undefined\<close> (\<open>None\<close>).\<close>

definition truthy_str :: "string option \<Rightarrow> bool" where
  "truthy_str v = (case v of None \<Rightarrow> False | Some s \<Rightarrow> s \<noteq> [])"

text \<open>\<^verbatim>\<open>!n\<close> of a number, and the number a boolean becomes under \<^verbatim>\<open><\<close>.\<close>

definition not_number :: "int \<Rightarrow> bool" where
  "not_number n = (n = 0)"

definition bool_to_number :: "bool \<Rightarrow> int" where
  "bool_to_number b = (if b then 1 else 0)"

text \<open>\<open>x === y\<close> on numbers: \<^verbatim>\<open>NaN\<close> equals nothing.\<close>

definition js_strict_eq :: "jsnum \<Rightarrow> jsnum \<Rightarrow> bool" where
  "js_strict_eq x y = (x \<noteq> NaN \<and> y \<noteq> NaN \<and> x = y)"


section \<open>The transport and its collaborators\<close>

text \<open>
  What the module imports and this repository does not hold: the constants of
  \<^verbatim>\<open>../headers\<close> (\<^verbatim>\<open>TransportOrigin\<close> and the three header names of \<^verbatim>\<open>Meta\<close>) and the
  conversion of a header string by unary \<^verbatim>\<open>+\<close>. They are parameters of the model;
  a header that converts to a fraction equals no integer, as \<^verbatim>\<open>NaN\<close> does.
\<close>

record platform =
  TransportOrigin :: string
  xMetaMD5_key :: string
  xMetaFrom_key :: string
  xMetaMTime_key :: string
  toNumber :: "string \<Rightarrow> jsnum"

text \<open>\<^verbatim>\<open>fs.statSync(path)\<close>: \<^verbatim>\<open>mtime.getTime()\<close> in epoch milliseconds and \<^verbatim>\<open>size\<close> in bytes.\<close>

record stats =
  mtime :: int
  size_of :: int

record init_body =
  body_uploadId :: "string option"

record list_body =
  body_parts :: "uploaded_part list"
  body_maxParts :: int

text \<open>The metadata headers \<^verbatim>\<open>completeMultipartUpload\<close> receives.\<close>

record completion_meta =
  meta_from :: string
  meta_mtime :: int
  meta_md5 :: "string option"

text \<open>The calls made on the storage client, in order, with their arguments.\<close>

datatype client_call =
    GetObjectMetadata string string
  | InitiateMultipartUpload string string
  | ListParts string string "string option"
  | PutPart string string int jsnum "string option"
  | CompleteMultipartUpload string string "string option" "uploaded_part list" completion_meta

text \<open>
  The world outside the transport: the local file (\<open>None\<close> when the path does not exist),
  the digest \<^verbatim>\<open>crypto.md5stream\<close> resolves to, and the storage client, each method answering
  from the calls made so far (the last of them the call being answered). A rejected promise
  is \<open>Thrown\<close>.
\<close>

record world =
  local_file :: "stats option"
  md5stream :: "string outcome"
  getObjectMetadata :: "client_call list \<Rightarrow> (string \<Rightarrow> string option) outcome"
  initiateMultipartUpload :: "client_call list \<Rightarrow> init_body outcome"
  listParts :: "client_call list \<Rightarrow> list_body outcome"
  sendRequest :: "client_call list \<Rightarrow> unit outcome"
  completeMultipartUpload :: "client_call list \<Rightarrow> unit outcome"

text \<open>The lifecycle notifications (\<^verbatim>\<open>this.emit(name, payload)\<close>); the progress notifications
  forwarded from the stream are not part of the model.\<close>

datatype event =
    EvStart string "string option" string
  | EvPause string
  | EvFinish string string
  | EvError string prim

text \<open>
  The fields of a \<^verbatim>\<open>MultiTransport\<close>, with the notifications emitted (\<open>emitted\<close>; listeners
  are registered for each, as in \<^verbatim>\<open>test_upload_transport.js\<close>) and the client calls made
  (\<open>calls\<close>). \<open>stream\<close> tells whether \<^verbatim>\<open>this._stream\<close> is set; \<open>None\<close> is \<^verbatim>\<open>undefined\<close>.
\<close>

record session =
  uuid :: string
  uploadId :: "string option"
  objectKey :: string
  localPath :: string
  bucketName :: string
  paused :: bool
  md5sum :: "string option"
  uploadedSize :: "jsnum option"
  stream :: bool
  emitted :: "event list"
  calls :: "client_call list"

definition MultiTransport :: "string \<Rightarrow> string \<Rightarrow> string \<Rightarrow> string \<Rightarrow> string option \<Rightarrow> session" where
  "MultiTransport uuid0 bucketName0 objectKey0 localPath0 uploadId0 =
     \<lparr>uuid = uuid0, uploadId = uploadId0, objectKey = objectKey0, localPath = localPath0,
      bucketName = bucketName0, paused = True, md5sum = None, uploadedSize = None,
      stream = False, emitted = [], calls = []\<rparr>"

definition emit :: "event \<Rightarrow> session \<Rightarrow> session" where
  "emit ev s = s\<lparr>emitted := emitted s @ [ev]\<rparr>"

definition call :: "client_call \<Rightarrow> session \<Rightarrow> session" where
  "call c s = s\<lparr>calls := calls s @ [c]\<rparr>"

definition existsSync :: "world \<Rightarrow> bool" where
  "existsSync w = (local_file w \<noteq> None)"

definition statSync :: "world \<Rightarrow> stats outcome" where
  "statSync w = (case local_file w of None \<Rightarrow> Thrown (new_Error ''ENOENT'') | Some st \<Rightarrow> Returned st)"

definition initUploadId :: "world \<Rightarrow> session \<Rightarrow> init_body outcome \<times> session" where
  "initUploadId w s =
     (let s1 = call (InitiateMultipartUpload (bucketName s) (objectKey s)) s
      in (initiateMultipartUpload w (calls s1), s1))"

definition fetchParts :: "world \<Rightarrow> session \<Rightarrow> list_body outcome \<times> session" where
  "fetchParts w s =
     (let s1 = call (ListParts (bucketName s) (objectKey s) (uploadId s)) s
      in (listParts w (calls s1), s1))"

definition checkFinish :: "session \<Rightarrow> session" where
  "checkFinish s =
     (if paused s then emit (EvPause (uuid s)) s
      else emit (EvFinish (uuid s) (localPath s)) (s\<lparr>paused := True\<rparr>))"

text \<open>The fixed text of the last branch of \<^verbatim>\<open>_checkError\<close> (four CJK characters, ``unknown
  error''), in UTF-8.\<close>

definition unknown_error_text :: string where
  "unknown_error_text =
     [CHR 0xE6, CHR 0x9C, CHR 0xAA, CHR 0xE7, CHR 0x9F, CHR 0xA5,
      CHR 0xE9, CHR 0x94, CHR 0x99, CHR 0xE8, CHR 0xAF, CHR 0xAF]"

text \<open>
  \<^verbatim>\<open>_checkError(err)\<close>. The flag is written before \<open>err\<close> is looked at, so the state returned
  beside a \<open>Thrown\<close> has it set.
\<close>

definition checkError :: "thrown \<Rightarrow> session \<Rightarrow> unit outcome \<times> session" where
  "checkError err s =
     (if paused s then (Returned (), emit (EvPause (uuid s)) s)
      else
        let s1 = s\<lparr>paused := True\<rparr> in
        case err of
          Prim (JStr str) \<Rightarrow> (Returned (), emit (EvError (uuid s) (JStr str)) s1)
        | _ \<Rightarrow>
          (case (if instanceof_Error err then Returned True
                 else (case get_prop err ''message'' of
                         Thrown e \<Rightarrow> Thrown e
                       | Returned msg \<Rightarrow> Returned (is_string msg))) of
             Thrown e \<Rightarrow> (Thrown e, s1)
           | Returned True \<Rightarrow>
               (case get_prop err ''message'' of
                  Thrown e \<Rightarrow> (Thrown e, s1)
                | Returned msg \<Rightarrow> (Returned (), emit (EvError (uuid s) msg) s1))
           | Returned False \<Rightarrow>
               (case has_prop ''status_code'' err of
                  Thrown e \<Rightarrow> (Thrown e, s1)
                | Returned True \<Rightarrow>
                    (case get_prop err ''status_code'' of
                       Thrown e \<Rightarrow> (Thrown e, s1)
                     | Returned code \<Rightarrow>
                         (Returned (),
                          emit (EvError (uuid s) (JStr (''Server code = '' @ to_string code))) s1))
                | Returned False \<Rightarrow>
                    (Returned (), emit (EvError (uuid s) (JStr unknown_error_text)) s1))))"

text \<open>
  \<^verbatim>\<open>_computedFileMD5()\<close>. The condition is \<^verbatim>\<open>!this._md5sum && !size < 4 * 1024 * 1024 * 1024\<close>:
  \<^verbatim>\<open>!\<close> binds tighter than \<^verbatim>\<open><\<close>, so the number compared is the boolean \<^verbatim>\<open>!size\<close>.
\<close>

definition computedFileMD5 :: "world \<Rightarrow> session \<Rightarrow> string option outcome \<times> session" where
  "computedFileMD5 w s =
     (case statSync w of
        Thrown e \<Rightarrow> (Thrown e, s)
      | Returned st \<Rightarrow>
          if \<not> truthy_str (md5sum s)
             \<and> bool_to_number (not_number (size_of st)) < 4 * 1024 * 1024 * 1024
          then (case md5stream w of
                  Thrown e \<Rightarrow> (Thrown e, s)
                | Returned digest \<Rightarrow> (Returned (Some digest), s\<lparr>md5sum := Some digest\<rparr>))
          else (Returned (md5sum s), s))"

text \<open>The object \<^verbatim>\<open>_fetchMetadata\<close> resolves to.\<close>

record metadata =
  xMetaSize :: jsnum
  xMetaFrom :: "string option"
  xMetaModifiedTime :: jsnum
  xMetaMD5 :: "string option"

text \<open>Unary \<^verbatim>\<open>+\<close> on a header: \<^verbatim>\<open>NaN\<close> when the header is absent.\<close>

definition header_number :: "platform \<Rightarrow> string option \<Rightarrow> jsnum" where
  "header_number P h = (case h of None \<Rightarrow> NaN | Some str \<Rightarrow> toNumber P str)"

definition fetchMetadata :: "platform \<Rightarrow> world \<Rightarrow> session \<Rightarrow> metadata outcome \<times> session" where
  "fetchMetadata P w s =
     (let s1 = call (GetObjectMetadata (bucketName s) (objectKey s)) s in
      case getObjectMetadata w (calls s1) of
        Thrown e \<Rightarrow> (Thrown e, s1)
      | Returned http_headers \<Rightarrow>
          (Returned \<lparr>xMetaSize = header_number P (http_headers ''content-length''),
                     xMetaFrom = http_headers (xMetaFrom_key P),
                     xMetaModifiedTime = header_number P (http_headers (xMetaMTime_key P)),
                     xMetaMD5 = http_headers (xMetaMD5_key P)\<rparr>, s1))"

text \<open>\<^verbatim>\<open>_checkConsistency()\<close>.\<close>

definition checkConsistency :: "platform \<Rightarrow> world \<Rightarrow> session \<Rightarrow> bool outcome \<times> session" where
  "checkConsistency P w s =
     (case statSync w of
        Thrown e \<Rightarrow> (Thrown e, s)
      | Returned st \<Rightarrow>
          (case fetchMetadata P w s of
             (Thrown ex, s1) \<Rightarrow>
               (case get_prop ex ''status_code'' of
                  Thrown e \<Rightarrow> (Thrown e, s1)
                | Returned code \<Rightarrow> if code = JNum 404 then (Returned False, s1) else (Thrown ex, s1))
           | (Returned meta, s1) \<Rightarrow>
               if js_strict_eq (Num (size_of st)) (xMetaSize meta) then
                 if xMetaFrom meta = Some (TransportOrigin P) then
                   if truthy_str (xMetaMD5 meta) then
                     (case computedFileMD5 w s1 of
                        (Thrown e, s2) \<Rightarrow> (Thrown e, s2)
                      | (Returned digest, s2) \<Rightarrow>
                          if xMetaMD5 meta \<noteq> digest then (Returned False, s2)
                          else (Returned True, s2))
                   else if \<not> js_strict_eq (Num (mtime st)) (xMetaModifiedTime meta)
                   then (Returned False, s1)
                   else (Returned True, s1)
                 else (Returned True, s1)
               else (Returned False, s1)))"

text \<open>
  \<^verbatim>\<open>_invoke(part, done)\<close>: the stream is opened, the part is sent, and on success the
  counter grows by \<^verbatim>\<open>partSize\<close> (\<^verbatim>\<open>undefined + n\<close> is \<^verbatim>\<open>NaN\<close>).
\<close>

definition invoke :: "world \<Rightarrow> part \<Rightarrow> session \<Rightarrow> unit outcome \<times> session" where
  "invoke w p s =
     (let s1 = call (PutPart (bucketName s) (objectKey s) (partNumber p) (partSize p) (uploadId s))
                 (s\<lparr>stream := True\<rparr>) in
      case sendRequest w (calls s1) of
        Thrown err \<Rightarrow> (Thrown err, s1)
      | Returned u \<Rightarrow>
          (Returned (),
           s1\<lparr>uploadedSize :=
                 Some (case uploadedSize s1 of None \<Rightarrow> NaN | Some x \<Rightarrow> js_add x (partSize p))\<rparr>))"

text \<open>
  \<^verbatim>\<open>resume(remainParts)\<close>: a queue of concurrency 1 over the parts, each handed to
  \<^verbatim>\<open>_invoke\<close>, whose rejection handler calls \<^verbatim>\<open>done(err)\<close>. The queue takes \<^verbatim>\<open>done(undefined)\<close>
  and \<^verbatim>\<open>done(null)\<close> for a success and goes on with the next part; any other error kills
  the queue and rejects with that error. The drained queue resolves.
\<close>

fun resume :: "world \<Rightarrow> part list \<Rightarrow> session \<Rightarrow> unit outcome \<times> session" where
  "resume w [] s = (Returned (), s)"
| "resume w (p # ps) s =
     (case invoke w p s of
        (Thrown err, s1) \<Rightarrow>
          if err = Prim JUndefined \<or> err = Prim JNull then resume w ps s1
          else (Thrown err, s1)
      | (Returned u, s1) \<Rightarrow> resume w ps s1)"

text \<open>\<^verbatim>\<open>_completeUpload()\<close>.\<close>

definition completeUpload :: "platform \<Rightarrow> world \<Rightarrow> session \<Rightarrow> unit outcome \<times> session" where
  "completeUpload P w s =
     (case fetchParts w s of
        (Thrown e, s1) \<Rightarrow> (Thrown e, s1)
      | (Returned body, s1) \<Rightarrow>
          (case statSync w of
             Thrown e \<Rightarrow> (Thrown e, s1)
           | Returned st \<Rightarrow>
               let orderedPartList = sort_key upPartNumber (body_parts body) in
               (case computedFileMD5 w s1 of
                  (Thrown e, s2) \<Rightarrow> (Thrown e, s2)
                | (Returned digest, s2) \<Rightarrow>
                    let s3 = call (CompleteMultipartUpload (bucketName s2) (objectKey s2)
                                     (uploadId s2) orderedPartList
                                     \<lparr>meta_from = TransportOrigin P, meta_mtime = mtime st,
                                      meta_md5 = digest\<rparr>) s2
                    in (completeMultipartUpload w (calls s3), s3))))"

text \<open>\<^verbatim>\<open>pause()\<close>: with a stream set, the abort is left to the stream and nothing is emitted
  here.\<close>

definition pause :: "session \<Rightarrow> session" where
  "pause s =
     (let s1 = s\<lparr>paused := True\<rparr> in
      if stream s1 then s1 else emit (EvPause (uuid s1)) s1)"

definition isPaused :: "session \<Rightarrow> bool" where
  "isPaused s = paused s"

text \<open>
  \<^verbatim>\<open>start()\<close>, in four pieces: the part of the \<^verbatim>\<open>try\<close> block from the list-parts call on,
  the \<^verbatim>\<open>try\<close> block, the method after its first statement (\<open>start_run\<close>), and the
  method, whose first statement is \<^verbatim>\<open>this._paused = false\<close>. \<open>None\<close> is a run that never
  returns (the carving loop). \<^verbatim>\<open>parts.sort\<close> sorts the array in place, so \<^verbatim>\<open>parts.reduce\<close>
  adds the sizes in the sorted order, rounding each sum; the sum is taken to stay finite.
\<close>

definition start_upload ::
  "platform \<Rightarrow> world \<Rightarrow> stats \<Rightarrow> session \<Rightarrow> (unit outcome \<times> session) option" where
  "start_upload P w st s =
     (case fetchParts w s of
        (Thrown e, s1) \<Rightarrow> Some (Thrown e, s1)
      | (Returned body, s1) \<Rightarrow>
          let orderedParts = sort_key upPartNumber (body_parts body);
              uploaded = foldl (\<lambda>pre cur. round_int (pre + size_bytes cur)) 0 orderedParts;
              s2 = s1\<lparr>uploadedSize := Some (Num uploaded)\<rparr>
          in
          (case decompose orderedParts (body_maxParts body) uploaded (size_of st) of
             None \<Rightarrow> None
           | Some remainParts \<Rightarrow>
               (case (if 0 < length remainParts
                      then resume w remainParts
                             (emit (EvStart (uuid s2) (uploadId s2) (localPath s2)) s2)
                      else (Returned (), s2)) of
                  (Thrown e, s3) \<Rightarrow> Some (Thrown e, s3)
                | (Returned u, s3) \<Rightarrow>
                    (case completeUpload P w s3 of
                       (Thrown e, s4) \<Rightarrow> Some (Thrown e, s4)
                     | (Returned u', s4) \<Rightarrow> Some (Returned (), checkFinish s4)))))"

definition start_try :: "platform \<Rightarrow> world \<Rightarrow> session \<Rightarrow> (unit outcome \<times> session) option" where
  "start_try P w s =
     (case statSync w of
        Thrown e \<Rightarrow> Some (Thrown e, s)
      | Returned st \<Rightarrow>
          if \<not> truthy_str (uploadId s) then
            (case checkConsistency P w s of
               (Thrown e, s1) \<Rightarrow> Some (Thrown e, s1)
             | (Returned True, s1) \<Rightarrow> Some (Returned (), checkFinish s1)
             | (Returned False, s1) \<Rightarrow>
                 (case initUploadId w s1 of
                    (Thrown e, s2) \<Rightarrow> Some (Thrown e, s2)
                  | (Returned body, s2) \<Rightarrow>
                      start_upload P w st (s2\<lparr>uploadId := body_uploadId body\<rparr>)))
          else start_upload P w st s)"

definition start_run :: "platform \<Rightarrow> world \<Rightarrow> session \<Rightarrow> (unit outcome \<times> session) option" where
  "start_run P w s0 =
     (if \<not> existsSync w
      then Some (checkError (new_Error (''file not found '' @ to_string JUndefined)) s0)
      else
        (case start_try P w s0 of
           None \<Rightarrow> None
         | Some (Thrown ex, s1) \<Rightarrow> Some (checkError ex s1)
         | Some (Returned u, s1) \<Rightarrow> Some (Returned (), s1)))"

definition start_session :: "platform \<Rightarrow> world \<Rightarrow> session \<Rightarrow> (unit outcome \<times> session) option" where
  "start_session P w s = start_run P w (s\<lparr>paused := False\<rparr>)"


text \<open>
  Two views of a session for the properties below: the \<^verbatim>\<open>pause\<close> notifications emitted so
  far, and the relation between the states before and after a step that emits no \<^verbatim>\<open>pause\<close>
  and leaves the flag alone.
\<close>

fun is_pause :: "event \<Rightarrow> bool" where
  "is_pause (EvPause u) = True"
| "is_pause ev = False"

definition pauses :: "session \<Rightarrow> event list" where
  "pauses s = filter is_pause (emitted s)"

definition keeps :: "session \<Rightarrow> session \<Rightarrow> bool" where
  "keeps s s' \<longleftrightarrow> paused s' = paused s \<and> pauses s' = pauses s"


section \<open>A platform, a world and a session to evaluate on\<close>

text \<open>A conversion of decimal header strings, the header names of a client, a world whose
  file and metadata answer are given and whose other calls succeed, and the session of
  \<^verbatim>\<open>test_upload_transport.js\<close>.\<close>

fun parse_digits :: "string \<Rightarrow> nat \<Rightarrow> jsnum" where
  "parse_digits [] acc = Num (int acc)"
| "parse_digits (c # cs) acc =
     (if c \<in> set ''0123456789'' then parse_digits cs (10 * acc + (of_char c - 48)) else NaN)"

definition demo_platform :: platform where
  "demo_platform =
     \<lparr>TransportOrigin = ''bce-client'', xMetaMD5_key = ''x-bce-meta-md5'',
      xMetaFrom_key = ''x-bce-meta-from'', xMetaMTime_key = ''x-bce-meta-mtime'',
      toNumber = (\<lambda>str. if str = [] then Num 0 else parse_digits str 0)\<rparr>"

definition demo_world :: "stats option \<Rightarrow> (string \<Rightarrow> string option) outcome \<Rightarrow> world" where
  "demo_world file meta =
     \<lparr>local_file = file, md5stream = Returned ''9e107d9d372bb6826bd81d3542a419d6'',
      getObjectMetadata = (\<lambda>cs. meta),
      initiateMultipartUpload = (\<lambda>cs. Returned \<lparr>body_uploadId = Some ''upload-1''\<rparr>),
      listParts = (\<lambda>cs. Returned \<lparr>body_parts = [], body_maxParts = 1000\<rparr>),
      sendRequest = (\<lambda>cs. Returned ()),
      completeMultipartUpload = (\<lambda>cs. Returned ())\<rparr>"

definition demo_session :: session where
  "demo_session = MultiTransport ''test_uuid'' ''bce-bos-client'' ''40111'' ''/tmp/10m'' None"

definition demo_headers :: "string \<Rightarrow> string option \<Rightarrow> string option \<Rightarrow> string \<Rightarrow> string \<Rightarrow> string option" where
  "demo_headers len origin digest mt =
     map_of ([(''content-length'', len), (''x-bce-meta-mtime'', mt)]
             @ (case origin of None \<Rightarrow> [] | Some v \<Rightarrow> [(''x-bce-meta-from'', v)])
             @ (case digest of None \<Rightarrow> [] | Some v \<Rightarrow> [(''x-bce-meta-md5'', v)]))"

definition demo_file :: stats where
  "demo_file = \<lparr>mtime = 1500000000000, size_of = 47185920\<rparr>"


section \<open>Properties of the numbers\<close>

declare plan.simps [simp del]
declare dec_nat.simps [simp del]
declare bit_length.simps [simp del]

lemma bit_length_bounds:
  "0 < n \<Longrightarrow> 2 ^ (bit_length n - 1) \<le> n \<and> n < 2 ^ bit_length n"
proof (induction n rule: bit_length.induct)
  case (1 n)
  show ?case
  proof (cases "n div 2 = 0")
    case True
    with \<open>0 < n\<close> have "n = 1" by presburger
    then show ?thesis by (simp add: bit_length.simps)
  next
    case False
    then have pos: "0 < n div 2" by simp
    with "1.IH" \<open>0 < n\<close> have ih: "2 ^ (bit_length (n div 2) - 1) \<le> n div 2"
      "n div 2 < 2 ^ bit_length (n div 2)" by simp_all
    have len: "bit_length n = Suc (bit_length (n div 2))"
      using \<open>0 < n\<close> by (subst bit_length.simps) simp
    have pos_len: "0 < bit_length (n div 2)"
      using pos by (subst bit_length.simps) simp
    have "2 * 2 ^ (bit_length (n div 2) - 1) \<le> n" using ih(1) by presburger
    moreover have "2 * 2 ^ (bit_length (n div 2) - 1) = (2::nat) ^ bit_length (n div 2)"
      using pos_len by (cases "bit_length (n div 2)") simp_all
    moreover have "n < 2 * 2 ^ bit_length (n div 2)" using ih(2) by presburger
    ultimately show ?thesis by (simp add: len)
  qed
qed

lemma bit_length_le: "n < 2 ^ j \<Longrightarrow> bit_length n \<le> j"
proof (rule ccontr)
  assume n: "n < 2 ^ j" and "\<not> bit_length n \<le> j"
  then have j: "j \<le> bit_length n - 1" by simp
  have "0 < n" using \<open>\<not> bit_length n \<le> j\<close> by (cases "n = 0") (simp_all add: bit_length.simps)
  then have a: "2 ^ (bit_length n - 1) \<le> n" using bit_length_bounds by blast
  have b: "(2::nat) ^ j \<le> 2 ^ (bit_length n - 1)" using j by (rule power_increasing) simp
  from a b n show False by linarith
qed

lemma rhe_lower: "x div y \<le> round_half_even x y"
  by (simp add: round_half_even_def Let_def)

lemma rhe_upper: "round_half_even x y \<le> x div y + 1"
  by (simp add: round_half_even_def Let_def)

lemma rhe_exact: "0 < y \<Longrightarrow> y dvd x \<Longrightarrow> round_half_even x y = x div y"
  by (simp add: round_half_even_def Let_def)

lemma rhe_up: "y < 2 * (x mod y) \<Longrightarrow> round_half_even x y = x div y + 1"
  by (simp add: round_half_even_def Let_def)

lemma ceil_between:
  fixes m n K :: int
  assumes K: "0 < K" and lo: "n * K < m" and hi: "m \<le> (n + 1) * K"
  shows "- ((- m) div K) = n + 1"
proof -
  define q where "q = (- m) div K"
  define r where "r = (- m) mod K"
  have eq: "K * q + r = - m" unfolding q_def r_def by (rule mult_div_mod_eq)
  have r: "0 \<le> r" "r < K" using K unfolding r_def by simp_all
  have "K * q < K * (- n)" using eq r lo by (simp add: algebra_simps)
  then have up: "q < - n" using K by (simp only: mult_less_cancel_left_pos)
  have "K * (- n - 2) < K * q" using eq r hi by (simp add: algebra_simps)
  then have "- n - 2 < q" using K by (simp only: mult_less_cancel_left_pos)
  with up have "q = - n - 1" by linarith
  then show ?thesis unfolding q_def by simp
qed

lemma bit_length_int:
  "0 < (x::int) \<Longrightarrow> 2 ^ (bit_length (nat x) - 1) \<le> x \<and> x < 2 ^ bit_length (nat x)"
  using bit_length_bounds [of "nat x"] by (simp add: le_nat_iff nat_less_iff)

lemma bit_length_int_le: "0 \<le> (x::int) \<Longrightarrow> x < 2 ^ j \<Longrightarrow> bit_length (nat x) \<le> j"
  by (rule bit_length_le) (simp add: nat_less_iff)

lemma div_lower:
  fixes b x y :: int
  assumes "0 < b" "y * b \<le> x"
  shows "y \<le> x div b"
proof -
  have "(y * b) div b \<le> x div b" using assms by (intro zdiv_mono1)
  then show ?thesis using assms(1) by simp
qed

lemma div_times_le:
  fixes b x :: int
  assumes "0 < b"
  shows "(x div b) * b \<le> x"
proof -
  have "b * (x div b) + x mod b = x" by (rule mult_div_mod_eq)
  moreover have "0 \<le> x mod b" using assms by simp
  moreover have "(x div b) * b = b * (x div b)" by (rule mult.commute)
  ultimately show ?thesis by linarith
qed

lemma div_upper:
  fixes b x y :: int
  assumes "0 < b" "x < y * b"
  shows "x div b < y"
proof (rule ccontr)
  assume "\<not> x div b < y"
  then have "y \<le> x div b" by simp
  then have "y * b \<le> (x div b) * b" using assms(1) by (intro mult_right_mono) simp_all
  also have "\<dots> \<le> x" using assms(1) by (rule div_times_le)
  finally show False using assms(2) by simp
qed

lemma ceil_props:
  fixes a b :: int
  assumes "0 < a"
  shows "b \<le> a * (- ((- b) div a))" and "a * (- ((- b) div a) - 1) < b"
proof -
  define q where "q = (- b) div a"
  have eq: "a * q + (- b) mod a = - b" unfolding q_def by (rule mult_div_mod_eq)
  have r: "0 \<le> (- b) mod a" "(- b) mod a < a" using assms by simp_all
  have m1: "a * (- q) = - (a * q)" by simp
  have m2: "a * (- q - 1) = - (a * q) - a" by (simp add: algebra_simps)
  show "b \<le> a * (- ((- b) div a))" unfolding q_def [symmetric] m1 using eq r by linarith
  show "a * (- ((- b) div a) - 1) < b" unfolding q_def [symmetric] m2 using eq r by linarith
qed

lemma ceil_fl_small:
  assumes a: "0 < a" and ab: "a < b" and b: "b \<le> 2 ^ 53"
  shows "ceil_fl a b = 1"
proof -
  define c where "c = - ((- b) div a)"
  define k where "k = bit_length (nat (c - 1))"
  define K :: int where "K = 2 ^ (k + 52)"
  have c1: "b \<le> a * c" and c2: "a * (c - 1) < b"
    unfolding c_def using ceil_props [OF a, of b] by simp_all
  have "a * 1 < a * c" using ab c1 by simp
  then have c_gt: "1 < c" using a by (simp only: mult_less_cancel_left_pos)
  then have pos: "0 < c - 1" by simp
  have "1 * (c - 1) \<le> a * (c - 1)" using a pos by (intro mult_right_mono) simp_all
  then have cb: "c - 1 < b" using c2 by simp
  have bounds: "2 ^ (k - 1) \<le> c - 1" "c - 1 < 2 ^ k"
    unfolding k_def using bit_length_int [OF pos] by simp_all
  have k53: "k \<le> 53"
    unfolding k_def using pos cb b by (intro bit_length_int_le) simp_all
  have qe: "quot_exp a b = - int k"
    using ab by (simp add: quot_exp_def k_def c_def)
  have s: "max (quot_exp a b - 52) (- 1074) = - int (k + 52)"
    using k53 by (simp add: qe)
  define m where "m = round_half_even (a * K) b"
  have n: "nat (52 + int k) = k + 52" by linarith
  have fl: "ceil_fl a b = - ((- m) div K)"
    unfolding ceil_fl_def s m_def K_def by (simp add: Let_def n)
  have Kpos: "0 < K" by (simp add: K_def)
  have bpos: "0 < b" using a ab by simp
  have "c \<le> 2 ^ k" using bounds(2) by simp
  then have "a * c \<le> a * 2 ^ k" using a by (intro mult_left_mono) simp_all
  with c1 have "b \<le> a * 2 ^ k" by simp
  then have "b * 2 ^ 52 \<le> (a * 2 ^ k) * 2 ^ 52" by (intro mult_right_mono) simp_all
  also have "\<dots> = a * K" by (simp add: K_def power_add)
  finally have "2 ^ 52 * b \<le> a * K" by (simp add: mult.commute)
  then have "2 ^ 52 \<le> (a * K) div b" using bpos by (intro div_lower)
  then have low: "0 * K < m"
    using rhe_lower [of "a * K" b] unfolding m_def by simp
  have "a * K < b * K" using ab Kpos by (simp only: mult_less_cancel_right_pos)
  then have "a * K < K * b" by (simp add: mult.commute)
  then have "(a * K) div b < K" using bpos by (intro div_upper)
  then have high: "m \<le> (0 + 1) * K"
    using rhe_upper [of "a * K" b] unfolding m_def by simp
  show ?thesis unfolding fl using ceil_between [OF Kpos low high] by simp
qed

lemma ceil_fl_top:
  "ceil_fl 9007199254740992 1 = 9007199254740992" "ceil_fl 9007199254740992 2 = 4503599627370496"
  by (simp_all add: ceil_fl_def quot_exp_def round_half_even_def bit_length.simps Let_def)

lemma ceil_fl_large:
  assumes b: "0 < b" and ba: "b \<le> a" and a: "a \<le> 2 ^ 53"
  shows "ceil_fl a b = - ((- a) div b)"
proof -
  define n where "n = a div b"
  define e where "e = bit_length (nat n) - 1"
  define r0 where "r0 = a mod b"
  have apos: "0 < a" using b ba by simp
  have split: "a = b * n + r0" unfolding n_def r0_def by simp
  have r0: "0 \<le> r0" "r0 < b" using b unfolding r0_def by simp_all
  have "1 * b \<le> a" using ba by simp
  then have "1 \<le> n" unfolding n_def using b by (intro div_lower)
  then have npos: "0 < n" by simp
  have bl: "2 ^ e \<le> n" "n < 2 ^ bit_length (nat n)"
    unfolding e_def using bit_length_int [OF npos] by simp_all
  have blpos: "0 < bit_length (nat n)"
    using npos by (subst bit_length.simps) simp
  then have bl_e: "bit_length (nat n) = e + 1" unfolding e_def by simp
  have nb: "n * b \<le> a" unfolding n_def using b by (rule div_times_le)
  have "n * 1 \<le> n * b" using b npos by (intro mult_left_mono) simp_all
  with nb have na: "n \<le> a" by simp
  have qe: "quot_exp a b = int e"
    using ba blpos by (simp add: quot_exp_def n_def e_def)
  show ?thesis
  proof (cases "52 \<le> e")
    case True
    have "(2::int) ^ 52 \<le> 2 ^ e" using True by (intro power_increasing) simp_all
    with bl(1) have n52: "2 ^ 52 \<le> n" by simp
    have b2: "b \<le> 2"
    proof (rule ccontr)
      assume "\<not> b \<le> 2"
      then have "3 \<le> b" by simp
      then have "2 ^ 52 * 3 \<le> n * b" using n52 by (intro mult_mono) simp_all
      with nb a show False by simp
    qed
    consider (top) "a = 2 ^ 53" | (one) "b = 1" "a < 2 ^ 53"
    proof (cases "a = 2 ^ 53")
      case True
      then show ?thesis using top by blast
    next
      case False
      with a have lt: "a < 2 ^ 53" by simp
      have "b = 1"
      proof (rule ccontr)
        assume "b \<noteq> 1"
        with b b2 have "b = 2" by simp
        with n52 nb have "2 ^ 53 \<le> a" by simp
        with lt show False by simp
      qed
      with lt show ?thesis using one by blast
    qed
    then show ?thesis
    proof cases
      case top
      have a_num: "a = 9007199254740992" using top by simp
      from b b2 have "b = 1 \<or> b = 2" by auto
      then show ?thesis
        unfolding a_num by (auto simp: ceil_fl_top)
    next
      case one
      then have "n = a" by (simp add: n_def)
      with one have "bit_length (nat n) \<le> 53"
        using apos by (intro bit_length_int_le) simp_all
      with True have "e = 52" unfolding e_def by simp
      then have "ceil_fl a b = round_half_even a b"
        unfolding ceil_fl_def qe by (simp add: Let_def)
      then show ?thesis
        using one by (simp add: round_half_even_def Let_def)
    qed
  next
    case False
    then have e51: "e \<le> 51" by simp
    define K :: int where "K = 2 ^ (52 - e)"
    define m where "m = round_half_even (a * K) b"
    have Kpos: "0 < K" by (simp add: K_def)
    have K1: "1 \<le> K" using Kpos by simp
    have s: "max (quot_exp a b - 52) (- 1074) = int e - 52" by (simp add: qe)
    have nn: "nat (52 - int e) = 52 - e" using e51 by linarith
    have fl: "ceil_fl a b = - ((- m) div K)"
      unfolding ceil_fl_def s m_def K_def using e51 by (simp add: Let_def nn)
    have aK: "a * K = (n * K) * b + r0 * K"
      unfolding split by (simp add: algebra_simps)
    show ?thesis
    proof (cases "r0 = 0")
      case True
      then have dv: "b dvd a * K" and dva: "b dvd a" unfolding aK split by simp_all
      have "(a * K) div b = n * K" using True b unfolding aK by simp
      then have "m = n * K" unfolding m_def using rhe_exact [OF b dv] by simp
      then have "- m = (- n) * K" by simp
      moreover have "K \<noteq> 0" using Kpos by simp
      ultimately have "(- m) div K = - n" by (metis nonzero_mult_div_cancel_right)
      then have "- ((- m) div K) = n" by simp
      moreover have "- ((- a) div b) = n"
        unfolding n_def using dva by (simp add: dvd_neg_div)
      ultimately show ?thesis unfolding fl by simp
    next
      case False
      with r0 have r0pos: "0 < r0" by simp
      have "n * b < a" using split r0pos by (simp add: mult.commute)
      moreover have "a \<le> (n + 1) * b" using split r0 by (simp add: algebra_simps)
      ultimately have rhs: "- ((- a) div b) = n + 1" using b by (intro ceil_between)
      have "(n * K) * b \<le> a * K" unfolding aK using r0 Kpos by simp
      then have lowdiv: "n * K \<le> (a * K) div b" using b by (intro div_lower)
      have "r0 * K < b * K" using r0 Kpos by (simp only: mult_less_cancel_right_pos)
      then have "a * K < ((n + 1) * K) * b" unfolding aK by (simp add: algebra_simps)
      then have "(a * K) div b < (n + 1) * K" using b by (intro div_upper)
      then have high: "m \<le> (n + 1) * K"
        using rhe_upper [of "a * K" b] unfolding m_def by simp
      have low: "n * K < m"
      proof (cases "n * K < (a * K) div b")
        case True
        then show ?thesis using rhe_lower [of "a * K" b] unfolding m_def by simp
      next
        case False
        with lowdiv have dv: "(a * K) div b = n * K" by simp
        have "b * ((a * K) div b) + (a * K) mod b = a * K" by (rule mult_div_mod_eq)
        then have "(a * K) mod b = a * K - b * ((a * K) div b)" by linarith
        also have "\<dots> = a * K - b * (n * K)" by (simp only: dv)
        also have "\<dots> = r0 * K" using aK by (simp add: algebra_simps)
        finally have md: "(a * K) mod b = r0 * K" .
        have "2 ^ e * b \<le> n * b" using bl(1) b by (intro mult_right_mono) simp_all
        also have "\<dots> < a" by fact
        also have "a \<le> 2 ^ 53" by fact
        also have "(2::int) ^ 53 = 2 ^ e * (2 * K)"
          unfolding K_def using e51
          by (simp add: power_add [symmetric] flip: power_Suc)
        finally have "b < 2 * K" by (simp only: mult_less_cancel_left_pos zero_less_power zero_less_numeral)
        also have "2 * K \<le> 2 * (r0 * K)" using r0pos Kpos by simp
        finally have "b < 2 * ((a * K) mod b)" unfolding md .
        then have "m = n * K + 1" unfolding m_def dv [symmetric] by (rule rhe_up)
        then show ?thesis by simp
      qed
      show ?thesis unfolding fl rhs using Kpos low high by (intro ceil_between)
    qed
  qed
qed

lemma ceil_small_quotient:
  fixes a b :: int
  assumes "0 < a" "a < b"
  shows "- ((- a) div b) = 1"
proof -
  have "0 < b" using assms by simp
  moreover have "0 * b < a" using assms by simp
  moreover have "a \<le> (0 + 1) * b" using assms by simp
  ultimately have "- ((- a) div b) = 0 + 1" by (rule ceil_between)
  then show ?thesis by simp
qed

lemma ceil_le_dividend:
  fixes a b :: int
  assumes "0 < a" "0 < b"
  shows "0 < - ((- a) div b)" and "- ((- a) div b) \<le> a"
proof -
  have p1: "a \<le> b * (- ((- a) div b))" and p2: "b * (- ((- a) div b) - 1) < a"
    using ceil_props [OF assms(2), of a] by simp_all
  show pos: "0 < - ((- a) div b)"
  proof (rule ccontr)
    assume "\<not> 0 < - ((- a) div b)"
    then have "- ((- a) div b) \<le> 0" by simp
    then have "b * (- ((- a) div b)) \<le> b * 0" using assms(2) by (intro mult_left_mono) simp_all
    with p1 assms(1) show False by simp
  qed
  have "1 * (- ((- a) div b) - 1) \<le> b * (- ((- a) div b) - 1)"
    using assms(2) pos by (intro mult_right_mono) simp_all
  with p2 show "- ((- a) div b) \<le> a" by simp
qed

lemma fin_safe: "\<bar>x\<bar> \<le> 2 ^ 53 \<Longrightarrow> fin x = Num x"
proof -
  assume x: "\<bar>x\<bar> \<le> 2 ^ 53"
  have "(2::int) ^ 53 < 2 ^ 1024" by (rule power_strict_increasing) simp_all
  with x have "x < 2 ^ 1024" "- (2 ^ 1024) < x" by linarith+
  then show ?thesis unfolding fin_def by simp
qed

lemma round_int_safe: "\<bar>x\<bar> \<le> 2 ^ 53 \<Longrightarrow> round_int x = x"
  by (simp add: round_int_def)

lemma ceil_quot_exact:
  assumes a: "0 \<le> a" "a \<le> 2 ^ 53" and b: "0 < b" "b \<le> 2 ^ 53"
  shows "ceil_quot a b = Num (- ((- a) div b))"
proof (cases "a = 0")
  case True
  then show ?thesis using b by (simp add: ceil_quot_def)
next
  case False
  with a have apos: "0 < a" by simp
  have fl: "ceil_fl a b = - ((- a) div b)"
  proof (cases "a < b")
    case True
    then show ?thesis
      using ceil_fl_small [OF apos True b(2)] ceil_small_quotient [OF apos True] by simp
  next
    case False
    then show ?thesis using b(1) a(2) by (intro ceil_fl_large) simp_all
  qed
  have "\<bar>- ((- a) div b)\<bar> \<le> 2 ^ 53"
    using ceil_le_dividend [OF apos b(1)] a(2) by simp
  then have "fin (- ((- a) div b)) = Num (- ((- a) div b))" by (rule fin_safe)
  then show ?thesis using apos b(1) by (simp add: ceil_quot_def fl)
qed

lemma rhe_nonneg: "0 \<le> x \<Longrightarrow> 0 < y \<Longrightarrow> 0 \<le> round_half_even x y"
proof -
  assume "0 \<le> x" "0 < y"
  then have "0 \<le> x div y" by (simp add: pos_imp_zdiv_nonneg_iff)
  with rhe_lower [of x y] show ?thesis by simp
qed

lemma floor_fl_nonneg:
  assumes "0 < a" "0 < b"
  shows "0 \<le> floor_fl a b"
  unfolding floor_fl_def Let_def
proof (split if_split, intro conjI impI)
  let ?s = "max (quot_exp a b - 52) (- 1074)"
  show "0 \<le> round_half_even a (b * 2 ^ nat ?s) * 2 ^ nat ?s"
    using assms by (intro mult_nonneg_nonneg rhe_nonneg) simp_all
  have "0 \<le> round_half_even (a * 2 ^ nat (- ?s)) b"
    using assms by (intro rhe_nonneg) simp_all
  then show "0 \<le> round_half_even (a * 2 ^ nat (- ?s)) b div 2 ^ nat (- ?s)"
    by (simp only: pos_imp_zdiv_nonneg_iff zero_less_power zero_less_numeral)
qed

lemma floor_fl_upper:
  assumes a: "0 < a" and b: "0 < b"
  shows "floor_fl a b \<le> 2 * a"
proof -
  define s where "s = max (quot_exp a b - 52) (- 1074)"
  show ?thesis
  proof (cases "0 \<le> s")
    case True
    define U :: int where "U = 2 ^ nat s"
    have Upos: "0 < U" by (simp add: U_def)
    have fl: "floor_fl a b = round_half_even a (b * U) * U"
      using True unfolding floor_fl_def s_def [symmetric] U_def by (simp add: Let_def)
    have qe52: "52 \<le> quot_exp a b" using True unfolding s_def by simp
    have ba: "b \<le> a"
    proof (rule ccontr)
      assume "\<not> b \<le> a"
      then have "quot_exp a b \<le> 0" by (simp add: quot_exp_def)
      with qe52 show False by simp
    qed
    define n where "n = a div b"
    have "1 * b \<le> a" using ba by simp
    then have "1 \<le> n" unfolding n_def using b by (intro div_lower)
    then have npos: "0 < n" by simp
    have qe: "quot_exp a b = int (bit_length (nat n)) - 1"
      using ba by (simp add: quot_exp_def n_def)
    have "2 ^ (bit_length (nat n) - 1) \<le> n" using bit_length_int [OF npos] by simp
    moreover have "nat s \<le> bit_length (nat n) - 1"
      using True qe unfolding s_def by simp
    then have "U \<le> 2 ^ (bit_length (nat n) - 1)"
      unfolding U_def by (intro power_increasing) simp_all
    moreover have "n * b \<le> a" unfolding n_def using b by (rule div_times_le)
    moreover have "n * 1 \<le> n * b" using b npos by (intro mult_left_mono) simp_all
    ultimately have Ua: "U \<le> a" by simp
    have "a div (b * U) \<le> a div U"
      using a b Upos by (intro zdiv_mono2) simp_all
    then have "round_half_even a (b * U) \<le> a div U + 1"
      using rhe_upper [of a "b * U"] by simp
    then have "round_half_even a (b * U) * U \<le> (a div U + 1) * U"
      using Upos by (intro mult_right_mono) simp_all
    also have "\<dots> = (a div U) * U + U" by (simp add: algebra_simps)
    also have "\<dots> \<le> a + a" using div_times_le [OF Upos, of a] Ua by simp
    finally show ?thesis unfolding fl by simp
  next
    case False
    define K :: int where "K = 2 ^ nat (- s)"
    have Kpos: "0 < K" by (simp add: K_def)
    define m where "m = round_half_even (a * K) b"
    have fl: "floor_fl a b = m div K"
      using False unfolding floor_fl_def s_def [symmetric] K_def m_def by (simp add: Let_def)
    have "(a * K) div b \<le> (a * K) div 1"
      using a b Kpos by (intro zdiv_mono2) simp_all
    then have "m \<le> a * K + 1" using rhe_upper [of "a * K" b] unfolding m_def by simp
    also have "\<dots> < (a + 1) * K + K" using Kpos by (simp add: algebra_simps)
    finally have "m < (a + 2) * K" by (simp add: algebra_simps)
    then have "m div K < a + 2" using Kpos by (intro div_upper)
    then show ?thesis unfolding fl using a by simp
  qed
qed

lemma ceil_quot_negative_budget:
  assumes "0 \<le> a" "a \<le> 2 ^ 53" "b < 0"
  shows "\<exists>m \<le> 0. ceil_quot a b = Num m"
proof (cases "a = 0")
  case True
  then show ?thesis using assms by (simp add: ceil_quot_def)
next
  case False
  with assms have pos: "0 < \<bar>a\<bar>" "0 < \<bar>b\<bar>" by simp_all
  have lo: "0 \<le> floor_fl \<bar>a\<bar> \<bar>b\<bar>" using pos by (rule floor_fl_nonneg)
  have "floor_fl \<bar>a\<bar> \<bar>b\<bar> \<le> 2 * \<bar>a\<bar>" using pos by (rule floor_fl_upper)
  also have "\<dots> \<le> 2 * 2 ^ 53" using assms by simp
  also have "\<dots> < (2::int) ^ 1024" by simp
  finally have "- (2 ^ 1024) < - floor_fl \<bar>a\<bar> \<bar>b\<bar>" by simp
  with lo have "fin (- floor_fl \<bar>a\<bar> \<bar>b\<bar>) = Num (- floor_fl \<bar>a\<bar> \<bar>b\<bar>)"
    unfolding fin_def by simp
  then show ?thesis using False assms lo by (simp add: ceil_quot_def)
qed

lemma ceil_quot_range:
  "b \<noteq> 0 \<Longrightarrow> ceil_quot a b \<noteq> NaN"
  by (simp add: ceil_quot_def fin_def)


lemma round_int_pos: "0 < x \<Longrightarrow> 0 < round_int x"
proof (cases "\<bar>x\<bar> \<le> 2 ^ 53")
  case True
  assume "0 < x"
  with True show ?thesis by (simp add: round_int_def)
next
  case False
  assume x: "0 < x"
  define u :: int where "u = 2 ^ (bit_length (nat x) - 53)"
  have upos: "0 < u" by (simp add: u_def)
  have "u \<le> 2 ^ (bit_length (nat x) - 1)" unfolding u_def by (intro power_increasing) simp_all
  also have "\<dots> \<le> x" using bit_length_int [OF x] by simp
  finally have "1 * u \<le> x" by simp
  then have "1 \<le> x div u" using upos by (intro div_lower)
  then have "0 < round_half_even x u" using rhe_lower [of x u] by simp
  then have "0 < round_half_even x u * u" using upos by simp
  then show ?thesis using False x by (simp add: round_int_def u_def Let_def)
qed

lemma round_int_minus: "round_int (- x) = - round_int x"
  by (simp add: round_int_def Let_def)

lemma round_int_neg: "x < 0 \<Longrightarrow> round_int x < 0"
  using round_int_pos [of "- x"] by (simp add: round_int_minus)

lemma round_int_zero_iff: "round_int x = 0 \<longleftrightarrow> x = 0"
proof (cases x "0::int" rule: linorder_cases)
  case less
  then show ?thesis using round_int_neg [of x] by simp
next
  case equal
  then show ?thesis by (simp add: round_int_def)
next
  case greater
  then show ?thesis using round_int_pos [of x] by simp
qed

lemma js_add_safe: "\<bar>a + b\<bar> \<le> 2 ^ 53 \<Longrightarrow> js_add (Num a) (Num b) = Num (a + b)"
  by (simp add: round_int_safe fin_safe)

lemma js_sub_safe: "\<bar>a - b\<bar> \<le> 2 ^ 53 \<Longrightarrow> js_sub (Num a) (Num b) = Num (a - b)"
  by (simp add: js_sub_def round_int_safe fin_safe)

lemma ceil_quot_NaN: "ceil_quot a b = NaN \<longleftrightarrow> a = 0 \<and> b = 0"
  by (auto simp: ceil_quot_def fin_def)

lemma ceil_quot_PosInfinity: "0 \<le> a \<Longrightarrow> ceil_quot a b = PosInfinity \<Longrightarrow> 0 < a"
  by (cases "a = 0") (simp_all add: ceil_quot_def split: if_splits)

section \<open>Properties of the decomposition\<close>

lemma plan_stop: "\<not> (0 < l \<and> 0 < a) \<Longrightarrow> plan a l off n = []"
  by (subst plan.simps) simp

lemma plan_step:
  "0 < l \<Longrightarrow> 0 < a \<Longrightarrow>
   plan a l off n = \<lparr>partNumber = n, partSize = Num (min l a), start = Num off\<rparr>
                      # plan a (l - min l a) (off + min l a) (n + 1)"
  by (subst plan.simps) simp

lemma loop_is_plan:
  "0 < a \<Longrightarrow> 0 \<le> off \<Longrightarrow> off + l \<le> 2 ^ 53 \<Longrightarrow>
   decompose_loop (Num a) (Num l) (Num off) n acc = Some (acc @ plan a l off n)"
proof (induction a l off n arbitrary: acc rule: plan.induct)
  case (1 a l off n)
  show ?case
  proof (cases "0 < l")
    case True
    have sub: "js_sub (Num l) (Num (min l a)) = Num (l - min l a)"
      using True "1.prems" by (intro js_sub_safe) simp
    have add: "js_add (Num off) (Num (min l a)) = Num (off + min l a)"
      using True "1.prems" by (intro js_add_safe) simp
    have "decompose_loop (Num a) (Num l) (Num off) n acc =
          decompose_loop (Num a) (Num (l - min l a)) (Num (off + min l a)) (n + 1)
            (acc @ [\<lparr>partNumber = n, partSize = Num (min l a), start = Num off\<rparr>])"
      using True by (subst decompose_loop.simps) (simp add: sub add del: js_add.simps)
    also have "\<dots> = Some ((acc @ [\<lparr>partNumber = n, partSize = Num (min l a), start = Num off\<rparr>])
                        @ plan a (l - min l a) (off + min l a) (n + 1))"
      using True "1.prems" by (intro "1.IH") simp_all
    also have "\<dots> = Some (acc @ plan a l off n)"
      using True "1.prems" by (simp add: plan_step)
    finally show ?thesis .
  next
    case False
    then show ?thesis
      by (subst decompose_loop.simps) (simp add: plan_stop)
  qed
qed

lemma loop_infinite_size:
  assumes "0 \<le> l" "0 \<le> off" "off + l \<le> 2 ^ 53"
  shows "decompose_loop PosInfinity (Num l) (Num off) n acc = Some (acc @ plan (max 1 l) l off n)"
proof (cases "0 < l")
  case True
  have sub: "js_sub (Num l) (Num l) = Num 0"
    using js_sub_safe [of l l] by simp
  have add: "js_add (Num off) (Num l) = Num (off + l)"
    using assms by (intro js_add_safe) simp
  have "decompose_loop PosInfinity (Num l) (Num off) n acc =
        decompose_loop PosInfinity (Num 0) (Num (off + l)) (n + 1)
          (acc @ [\<lparr>partNumber = n, partSize = Num l, start = Num off\<rparr>])"
    using True by (subst decompose_loop.simps) (simp add: sub add del: js_add.simps)
  also have "\<dots> = Some (acc @ [\<lparr>partNumber = n, partSize = Num l, start = Num off\<rparr>])"
    by (subst decompose_loop.simps) simp
  also have "[\<lparr>partNumber = n, partSize = Num l, start = Num off\<rparr>] = plan (max 1 l) l off n"
    using True by (simp add: plan_step plan_stop)
  finally show ?thesis .
next
  case False
  with assms show ?thesis
    by (subst decompose_loop.simps) (simp add: plan_stop)
qed

lemma loop_no_bytes: "decompose_loop avg (Num 0) off n acc = Some acc"
  by (subst decompose_loop.simps) simp


lemmas number_defs =
  ceil_quot_def ceil_fl_def floor_fl_def quot_exp_def round_int_def round_half_even_def fin_def
  bit_length.simps

lemma decompose_beyond_safe_integers:
  "decompose [] 3 0 18014398509481984 =
     Some [\<lparr>partNumber = 1, partSize = Num 6004799503160661, start = Num 0\<rparr>,
           \<lparr>partNumber = 2, partSize = Num 6004799503160661, start = Num 6004799503160661\<rparr>,
           \<lparr>partNumber = 3, partSize = Num 6004799503160661, start = Num 12009599006321322\<rparr>,
           \<lparr>partNumber = 4, partSize = Num 2, start = Num 18014398509481984\<rparr>]"
  by (simp add: decompose_def averagePartSize_def minPartSize_def kPartSize_def js_sub_def
      number_defs decompose_loop.simps Let_def)

lemma plan_length_le:
  "0 < a \<Longrightarrow> l \<le> a * d \<Longrightarrow> 0 \<le> d \<Longrightarrow> int (length (plan a l off n)) \<le> d"
proof (induction a l off n arbitrary: d rule: plan.induct)
  case (1 a l off n)
  show ?case
  proof (cases "0 < l")
    case False
    then show ?thesis using "1.prems" by (simp add: plan_stop)
  next
    case True
    have d1: "1 \<le> d"
    proof (rule ccontr)
      assume "\<not> 1 \<le> d"
      with \<open>0 \<le> d\<close> have "d = 0" by simp
      with \<open>l \<le> a * d\<close> True show False by simp
    qed
    have "l - min l a \<le> a * (d - 1)"
    proof (cases "l \<le> a")
      case True
      then show ?thesis using d1 \<open>0 < a\<close> by simp
    next
      case False
      then show ?thesis using \<open>l \<le> a * d\<close> by (simp add: algebra_simps)
    qed
    then have "int (length (plan a (l - min l a) (off + min l a) (n + 1))) \<le> d - 1"
      using True "1.prems" d1 by (intro "1.IH") simp_all
    then show ?thesis using True \<open>0 < a\<close> by (simp add: plan_step)
  qed
qed

lemma plan_butlast_size:
  "p \<in> set (butlast (plan a l off n)) \<Longrightarrow> partSize p = Num a"
proof (induction a l off n rule: plan.induct)
  case (1 a l off n)
  show ?case
  proof (cases "0 < l \<and> 0 < a")
    case False
    then show ?thesis using "1.prems" by (simp add: plan_stop)
  next
    case True
    show ?thesis
    proof (cases "l \<le> a")
      case True
      with \<open>0 < l \<and> 0 < a\<close> have "plan a l off n = [\<lparr>partNumber = n, partSize = Num l, start = Num off\<rparr>]"
        by (simp add: plan_step plan_stop)
      with "1.prems" show ?thesis by simp
    next
      case False
      with True "1.prems" "1.IH" show ?thesis
        by (auto simp: plan_step split: if_splits)
    qed
  qed
qed

lemma plan_positive: "p \<in> set (plan a l off n) \<Longrightarrow> js_gt (partSize p) (Num 0)"
proof (induction a l off n rule: plan.induct)
  case (1 a l off n)
  show ?case
  proof (cases "0 < l \<and> 0 < a")
    case False
    then show ?thesis using "1.prems" by (simp add: plan_stop)
  next
    case True
    with "1.prems" "1.IH" show ?thesis
      by (auto simp: plan_step)
  qed
qed

lemma ceil_bound: "0 < d \<Longrightarrow> t \<le> (- ((- t) div d)) * (d::int)"
proof -
  assume d: "0 < d"
  have "d * ((- t) div d) + (- t) mod d = - t" by (rule mult_div_mod_eq)
  moreover have "0 \<le> (- t) mod d" using d by simp
  ultimately have "d * ((- t) div d) \<le> - t" by linarith
  then show ?thesis by (simp add: algebra_simps)
qed

lemma plan_cover:
  "0 \<le> l \<Longrightarrow> 0 < a \<Longrightarrow>
   \<exists>sizes. map partSize (plan a l off n) = map Num sizes \<and> sum_list sizes = l
     \<and> (\<forall>i < length (plan a l off n).
           start (plan a l off n ! i) = Num (off + sum_list (take i sizes))
           \<and> partNumber (plan a l off n ! i) = n + int i)"
proof (induction a l off n rule: plan.induct)
  case (1 a l off n)
  show ?case
  proof (cases "0 < l")
    case False
    with "1.prems" have "plan a l off n = []" "l = 0" by (simp_all add: plan_stop)
    then show ?thesis by simp
  next
    case True
    let ?rest = "plan a (l - min l a) (off + min l a) (n + 1)"
    obtain sizes where sz: "map partSize ?rest = map Num sizes"
      and total: "sum_list sizes = l - min l a"
      and at: "\<And>j. j < length ?rest \<Longrightarrow>
                 start (?rest ! j) = Num (off + min l a + sum_list (take j sizes))
                 \<and> partNumber (?rest ! j) = n + 1 + int j"
      using "1.IH" True "1.prems" by auto
    have step: "plan a l off n = \<lparr>partNumber = n, partSize = Num (min l a), start = Num off\<rparr> # ?rest"
      using True "1.prems" by (simp add: plan_step)
    have "map partSize (plan a l off n) = map Num (min l a # sizes)"
      by (simp add: step sz)
    moreover have "sum_list (min l a # sizes) = l" by (simp add: total)
    moreover have "start (plan a l off n ! i) = Num (off + sum_list (take i (min l a # sizes)))
           \<and> partNumber (plan a l off n ! i) = n + int i"
      if "i < length (plan a l off n)" for i
    proof (cases i)
      case 0
      then show ?thesis by (simp add: step)
    next
      case (Suc j)
      with that have "j < length ?rest" by (simp add: step)
      from at [OF this] show ?thesis by (simp add: step Suc add.assoc)
    qed
    ultimately show ?thesis by blast
  qed
qed

lemma avg_pos_budget:
  assumes "0 \<le> totalSize" "totalSize \<le> 2 ^ 53"
    and "int (length orderedParts) < maxParts" "maxParts \<le> 2 ^ 53"
  shows "averagePartSize orderedParts maxParts totalSize =
           Num (max kPartSize (- ((- totalSize) div (maxParts - int (length orderedParts)))))"
proof -
  let ?d = "maxParts - int (length orderedParts)"
  have d: "0 < ?d" "?d \<le> 2 ^ 53" using assms by simp_all
  then have "round_int ?d = ?d" by (intro round_int_safe) simp
  moreover have "ceil_quot totalSize ?d = Num (- ((- totalSize) div ?d))"
    using assms(1,2) d by (rule ceil_quot_exact)
  ultimately show ?thesis by (simp add: averagePartSize_def minPartSize_def)
qed

lemma avg_cases:
  assumes "0 \<le> totalSize"
  shows "(\<exists>a. averagePartSize orderedParts maxParts totalSize = Num a \<and> kPartSize \<le> a)
   \<or> (averagePartSize orderedParts maxParts totalSize = PosInfinity \<and> 0 < totalSize)
   \<or> (averagePartSize orderedParts maxParts totalSize = NaN \<and> totalSize = 0
        \<and> maxParts = int (length orderedParts))"
proof (cases "minPartSize orderedParts maxParts totalSize")
  case (Num c)
  then show ?thesis by (simp add: averagePartSize_def)
next
  case PosInfinity
  then have "0 < totalSize"
    using assms unfolding minPartSize_def by (intro ceil_quot_PosInfinity)
  with PosInfinity show ?thesis by (simp add: averagePartSize_def)
next
  case NegInfinity
  then show ?thesis by (simp add: averagePartSize_def)
next
  case NaN
  then have "totalSize = 0" "maxParts = int (length orderedParts)"
    unfolding minPartSize_def ceil_quot_NaN round_int_zero_iff by simp_all
  with NaN show ?thesis by (simp add: averagePartSize_def)
qed

lemma decompose_is_plan:
  assumes "0 \<le> uploadSize" "uploadSize \<le> totalSize" "totalSize \<le> 2 ^ 53"
  shows "\<exists>a. 0 < a \<and> decompose orderedParts maxParts uploadSize totalSize =
           Some (plan a (totalSize - uploadSize) uploadSize (int (length orderedParts) + 1))"
proof -
  let ?avg = "averagePartSize orderedParts maxParts totalSize"
  let ?n = "int (length orderedParts) + 1"
  have sub: "js_sub (Num totalSize) (Num uploadSize) = Num (totalSize - uploadSize)"
    using assms by (intro js_sub_safe) simp
  have t: "0 \<le> totalSize" using assms by simp
  have fit: "uploadSize + (totalSize - uploadSize) \<le> 2 ^ 53" using assms by simp
  consider (fin) a where "?avg = Num a" "kPartSize \<le> a"
    | (inf) "?avg = PosInfinity"
    | (nan) "?avg = NaN" "totalSize = 0"
    using avg_cases [OF t, of orderedParts maxParts] by blast
  then show ?thesis
  proof cases
    case fin
    then have a: "0 < a" by (simp add: kPartSize_def)
    have "decompose orderedParts maxParts uploadSize totalSize =
            Some ([] @ plan a (totalSize - uploadSize) uploadSize ?n)"
      unfolding decompose_def sub fin(1) using a assms(1) fit by (rule loop_is_plan)
    with a show ?thesis by auto
  next
    case inf
    have l: "0 \<le> totalSize - uploadSize" using assms by simp
    have "decompose orderedParts maxParts uploadSize totalSize =
            Some ([] @ plan (max 1 (totalSize - uploadSize)) (totalSize - uploadSize) uploadSize ?n)"
      unfolding decompose_def sub inf using l assms(1) fit by (rule loop_infinite_size)
    moreover have "0 < max 1 (totalSize - uploadSize)" by simp
    ultimately show ?thesis by (intro exI [of _ "max 1 (totalSize - uploadSize)"]) simp
  next
    case nan
    with assms have z: "totalSize - uploadSize = 0" "uploadSize = 0" by simp_all
    have "decompose orderedParts maxParts uploadSize totalSize =
            Some (plan 1 (totalSize - uploadSize) uploadSize ?n)"
      unfolding decompose_def sub using nan(2) by (simp add: z loop_no_bytes plan_stop)
    then show ?thesis by (intro exI [of _ 1]) simp
  qed
qed

lemma loop_stuck:
  assumes run: "decompose_loop avg left off n acc = Some y"
  shows "\<not> (avg = Num 20971520 \<and> left = Num 1208925819614629174706176)"
proof (rule decompose_loop.raw_induct
    [where P = "\<lambda>avg left off n acc y.
                  \<not> (avg = Num 20971520 \<and> left = Num 1208925819614629174706176)", OF _ run])
  fix f avg left off n acc y
  assume IH: "\<And>a b c d e y. f a b c d e = Some y \<Longrightarrow>
                \<not> (a = Num 20971520 \<and> b = Num 1208925819614629174706176)"
    and eq: "(if js_gt left (Num 0) then
                (let psize = js_min left avg in
                   f avg (js_sub left psize) (js_add off psize) (n + 1)
                     (acc @ [\<lparr>partNumber = n, partSize = psize, start = off\<rparr>]))
              else Some acc) = Some y"
  show "\<not> (avg = Num 20971520 \<and> left = Num 1208925819614629174706176)"
  proof
    assume stuck: "avg = Num 20971520 \<and> left = Num 1208925819614629174706176"
    have same: "js_sub (Num 1208925819614629174706176) (Num 20971520) = Num 1208925819614629174706176"
      by (simp add: js_sub_def number_defs Let_def)
    from eq stuck
    have "f (Num 20971520) (Num 1208925819614629174706176) (js_add off (Num 20971520)) (n + 1)
            (acc @ [\<lparr>partNumber = n, partSize = Num 20971520, start = off\<rparr>]) = Some y"
      by (simp add: same Let_def del: js_add.simps)
    from IH [OF this] show False by simp
  qed
qed

lemma decompose_diverges:
  "decompose [\<lparr>upPartNumber = 1, size_bytes = 0\<rparr>] 0 0 1208925819614629174706176 = None"
proof -
  have avg: "averagePartSize [\<lparr>upPartNumber = 1, size_bytes = 0\<rparr>] 0 1208925819614629174706176 = Num 20971520"
    by (simp add: averagePartSize_def minPartSize_def kPartSize_def number_defs Let_def)
  have left: "js_sub (Num 1208925819614629174706176) (Num 0) = Num 1208925819614629174706176"
    by (simp add: js_sub_def number_defs Let_def)
  show ?thesis
  proof (cases "decompose [\<lparr>upPartNumber = 1, size_bytes = 0\<rparr>] 0 0 1208925819614629174706176")
    case None
    then show ?thesis .
  next
    case (Some y)
    then have "decompose_loop (Num 20971520) (Num 1208925819614629174706176) (Num 0)
                 (int (length [\<lparr>upPartNumber = 1, size_bytes = 0\<rparr>]) + 1) [] = Some y"
      unfolding decompose_def avg left .
    from loop_stuck [OF this] show ?thesis by simp
  qed
qed


text \<open>
  Claim C2 bounds the number of parts by \<open>maxParts - length orderedParts\<close> for every call
  with \<open>0 \<le> uploadSize \<le> totalSize\<close> and a positive budget. At \<open>totalSize = 2 ^ 54\<close>,
  \<open>maxParts = 3\<close> and no accepted part the quotient is rounded down to
  6004799503160661, the differences are rounded too, and four parts come back.
\<close>
theorem decompose_budget_counterexample:
  "(0::int) \<le> 0 \<and> (0::int) \<le> 18014398509481984
   \<and> int (length ([] :: uploaded_part list)) < 3
   \<and> decompose [] 3 0 18014398509481984 =
       Some [\<lparr>partNumber = 1, partSize = Num 6004799503160661, start = Num 0\<rparr>,
             \<lparr>partNumber = 2, partSize = Num 6004799503160661, start = Num 6004799503160661\<rparr>,
             \<lparr>partNumber = 3, partSize = Num 6004799503160661, start = Num 12009599006321322\<rparr>,
             \<lparr>partNumber = 4, partSize = Num 2, start = Num 18014398509481984\<rparr>]
   \<and> \<not> int (length
           [\<lparr>partNumber = 1, partSize = Num 6004799503160661, start = Num 0\<rparr>,
            \<lparr>partNumber = 2, partSize = Num 6004799503160661, start = Num 6004799503160661\<rparr>,
            \<lparr>partNumber = 3, partSize = Num 6004799503160661, start = Num 12009599006321322\<rparr>,
            \<lparr>partNumber = 4, partSize = Num 2, start = Num 18014398509481984\<rparr>])
         \<le> 3 - int (length ([] :: uploaded_part list))"
  by (simp add: decompose_beyond_safe_integers)

text \<open>
  Claim C2, amended. With \<open>0 \<le> uploadSize \<le> totalSize \<le> 2 ^ 53\<close> and
  \<open>length orderedParts < maxParts \<le> 2 ^ 53\<close> (the range in which the arithmetic of
  doubles is exact), \<^verbatim>\<open>_decompose\<close> returns, the list has at most
  \<open>maxParts - length orderedParts\<close> entries, and every entry but the last has the size
  \<open>max (20 MiB) \<lceil>totalSize / (maxParts - length orderedParts)\<rceil>\<close>, a number that is at
  least 20 MiB.
\<close>
theorem decompose_part_budget:
  assumes "0 \<le> uploadSize" and "uploadSize \<le> totalSize" and "totalSize \<le> 2 ^ 53"
    and "int (length orderedParts) < maxParts" and "maxParts \<le> 2 ^ 53"
  shows "\<exists>ps. decompose orderedParts maxParts uploadSize totalSize = Some ps
           \<and> int (length ps) \<le> maxParts - int (length orderedParts)
           \<and> (\<forall>p \<in> set (butlast ps).
                 partSize p = Num (max (20 * 1024 * 1024)
                   \<lceil>real_of_int totalSize / real_of_int (maxParts - int (length orderedParts))\<rceil>)
                 \<and> (\<exists>k. partSize p = Num k \<and> 20 * 1024 * 1024 \<le> k))"
proof -
  let ?d = "maxParts - int (length orderedParts)"
  let ?a = "max kPartSize (- ((- totalSize) div ?d))"
  let ?ps = "plan ?a (totalSize - uploadSize) uploadSize (int (length orderedParts) + 1)"
  have d: "0 < ?d" using assms(4) by simp
  have a: "0 < ?a" by (simp add: kPartSize_def)
  have t: "0 \<le> totalSize" using assms by simp
  have avg: "averagePartSize orderedParts maxParts totalSize = Num ?a"
    using t assms(3,4,5) by (rule avg_pos_budget)
  have sub: "js_sub (Num totalSize) (Num uploadSize) = Num (totalSize - uploadSize)"
    using assms by (intro js_sub_safe) simp
  have fit: "uploadSize + (totalSize - uploadSize) \<le> 2 ^ 53" using assms by simp
  have "decompose orderedParts maxParts uploadSize totalSize = Some ([] @ ?ps)"
    unfolding decompose_def avg sub using a assms(1) fit by (rule loop_is_plan)
  then have res: "decompose orderedParts maxParts uploadSize totalSize = Some ?ps" by simp
  have "totalSize \<le> (- ((- totalSize) div ?d)) * ?d" using d by (rule ceil_bound)
  also have "\<dots> \<le> ?a * ?d" using d by (intro mult_right_mono) simp_all
  finally have "totalSize - uploadSize \<le> ?a * ?d" using assms(1) by simp
  with a d have len: "int (length ?ps) \<le> ?d"
    by (intro plan_length_le) simp_all
  have ceil: "- ((- totalSize) div ?d) = \<lceil>real_of_int totalSize / real_of_int ?d\<rceil>"
    by (simp only: ceiling_divide_eq_div)
  have sz: "partSize p = Num (max (20 * 1024 * 1024) \<lceil>real_of_int totalSize / real_of_int ?d\<rceil>)
            \<and> (\<exists>k. partSize p = Num k \<and> 20 * 1024 * 1024 \<le> k)"
    if "p \<in> set (butlast ?ps)" for p
  proof -
    from that have "partSize p = Num ?a" by (rule plan_butlast_size)
    then show ?thesis unfolding ceil by (simp add: kPartSize_def)
  qed
  from res len sz show ?thesis by blast
qed

text \<open>The budget theorem at a 100 MiB file with one accepted part of 20 MiB and
  \<open>maxParts = 3\<close>.\<close>
theorem decompose_part_budget_witness:
  "(0::int) \<le> 20971520 \<and> (20971520::int) \<le> 104857600 \<and> (104857600::int) \<le> 2 ^ 53
   \<and> int (length [\<lparr>upPartNumber = 1, size_bytes = 20971520\<rparr>]) < 3 \<and> (3::int) \<le> 2 ^ 53
   \<and> (\<exists>ps. decompose [\<lparr>upPartNumber = 1, size_bytes = 20971520\<rparr>] 3 20971520 104857600 = Some ps
          \<and> int (length ps) \<le> 3 - int (length [\<lparr>upPartNumber = 1, size_bytes = 20971520\<rparr>])
          \<and> (\<forall>p \<in> set (butlast ps).
                partSize p = Num (max (20 * 1024 * 1024)
                  \<lceil>real_of_int 104857600
                     / real_of_int (3 - int (length [\<lparr>upPartNumber = 1, size_bytes = 20971520\<rparr>]))\<rceil>)
                \<and> (\<exists>k. partSize p = Num k \<and> 20 * 1024 * 1024 \<le> k)))"
  using decompose_part_budget [of 20971520 104857600 "[\<lparr>upPartNumber = 1, size_bytes = 20971520\<rparr>]" 3]
  by simp

text \<open>
  Claim C3 says that the sizes add up to \<open>totalSize - uploadSize\<close> and that each part
  starts where the parts before it end, for every call with \<open>0 \<le> uploadSize \<le> totalSize\<close>.
  In the run at \<open>totalSize = 2 ^ 54\<close> the four sizes add up to \<open>2 ^ 54 + 1\<close>, and the last
  part starts at \<open>2 ^ 54\<close>, one byte after the end of the three parts before it.
\<close>
theorem decompose_cover_counterexample:
  "(0::int) \<le> 0 \<and> (0::int) \<le> 18014398509481984
   \<and> decompose [] 3 0 18014398509481984 =
       Some [\<lparr>partNumber = 1, partSize = Num 6004799503160661, start = Num 0\<rparr>,
             \<lparr>partNumber = 2, partSize = Num 6004799503160661, start = Num 6004799503160661\<rparr>,
             \<lparr>partNumber = 3, partSize = Num 6004799503160661, start = Num 12009599006321322\<rparr>,
             \<lparr>partNumber = 4, partSize = Num 2, start = Num 18014398509481984\<rparr>]
   \<and> (6004799503160661 + 6004799503160661 + 6004799503160661 + 2 :: int) \<noteq> 18014398509481984 - 0
   \<and> (18014398509481984 :: int) \<noteq> 0 + (6004799503160661 + 6004799503160661 + 6004799503160661)"
  by (simp add: decompose_beyond_safe_integers)

text \<open>
  Claim C3, amended. With \<open>0 \<le> uploadSize \<le> totalSize \<le> 2 ^ 53\<close>, whatever \<open>maxParts\<close>
  is, \<^verbatim>\<open>_decompose\<close> returns a list of finite sizes that add up to
  \<open>totalSize - uploadSize\<close>; each part starts at \<open>uploadSize\<close> plus the sizes of the parts
  before it and carries the number \<open>length orderedParts + 1 + i\<close> at index \<open>i\<close>.
\<close>
theorem decompose_covers_remainder:
  assumes "0 \<le> uploadSize" and "uploadSize \<le> totalSize" and "totalSize \<le> 2 ^ 53"
  shows "\<exists>ps sizes. decompose orderedParts maxParts uploadSize totalSize = Some ps
           \<and> map partSize ps = map Num sizes
           \<and> sum_list sizes = totalSize - uploadSize
           \<and> (\<forall>i < length ps.
                 start (ps ! i) = Num (uploadSize + sum_list (take i sizes))
                 \<and> partNumber (ps ! i) = int (length orderedParts) + 1 + int i)"
proof -
  obtain a where a: "0 < a"
    and res: "decompose orderedParts maxParts uploadSize totalSize =
                Some (plan a (totalSize - uploadSize) uploadSize (int (length orderedParts) + 1))"
    using decompose_is_plan [OF assms] by blast
  have "0 \<le> totalSize - uploadSize" using assms by simp
  from plan_cover [OF this a, of uploadSize "int (length orderedParts) + 1"] res
  show ?thesis by blast
qed

text \<open>The cover theorem at a 45 MiB file whose first 20 MiB part is accepted.\<close>
theorem decompose_covers_remainder_witness:
  "(0::int) \<le> 20971520 \<and> (20971520::int) \<le> 47185920 \<and> (47185920::int) \<le> 2 ^ 53
   \<and> (\<exists>ps sizes. decompose [\<lparr>upPartNumber = 1, size_bytes = 20971520\<rparr>] 1000 20971520 47185920 = Some ps
          \<and> map partSize ps = map Num sizes
          \<and> sum_list sizes = 47185920 - 20971520
          \<and> (\<forall>i < length ps.
                start (ps ! i) = Num (20971520 + sum_list (take i sizes))
                \<and> partNumber (ps ! i) = int (length [\<lparr>upPartNumber = 1, size_bytes = 20971520\<rparr>]) + 1 + int i))"
  using decompose_covers_remainder [of 20971520 47185920 "[\<lparr>upPartNumber = 1, size_bytes = 20971520\<rparr>]" 1000]
  by simp

text \<open>
  Claim C7. A file of 45 MiB, no accepted part, \<open>maxParts = 1000\<close>: three parts of 20 MiB,
  20 MiB and 5 MiB, numbered 1, 2, 3, at the offsets 0, 20 MiB and 40 MiB.
\<close>
theorem decompose_forty_five_MiB:
  "decompose [] 1000 0 (45 * 1024 * 1024) =
     Some [\<lparr>partNumber = 1, partSize = Num (20 * 1024 * 1024), start = Num 0\<rparr>,
           \<lparr>partNumber = 2, partSize = Num (20 * 1024 * 1024), start = Num (20 * 1024 * 1024)\<rparr>,
           \<lparr>partNumber = 3, partSize = Num (5 * 1024 * 1024), start = Num (40 * 1024 * 1024)\<rparr>]"
  by (simp add: decompose_def averagePartSize_def minPartSize_def kPartSize_def js_sub_def
      number_defs decompose_loop.simps Let_def)


text \<open>
  Claim C10 says that \<^verbatim>\<open>_decompose\<close> returns for every input with
  \<open>0 \<le> uploadSize \<le> totalSize\<close> and that in the degenerate budgets the effective part
  size ends up strictly positive. With no accepted part, \<open>maxParts = 0\<close> and an empty file
  the effective part size is \<^verbatim>\<open>NaN\<close>, which is greater than nothing. With one accepted
  part, \<open>maxParts = 0\<close> and a file of \<open>2 ^ 80\<close> bytes the effective part size is the
  baseline, \<open>2 ^ 80 - 20971520\<close> is rounded back to \<open>2 ^ 80\<close>, and the loop never ends.
\<close>
theorem decompose_degenerate_counterexample:
  "(0::int) \<le> 0 \<and> int (length ([] :: uploaded_part list)) = 0
   \<and> averagePartSize [] 0 0 = NaN \<and> \<not> js_gt (averagePartSize [] 0 0) (Num 0)
   \<and> (0::int) \<le> 1208925819614629174706176
   \<and> 0 < int (length [\<lparr>upPartNumber = 1, size_bytes = 0\<rparr>])
   \<and> decompose [\<lparr>upPartNumber = 1, size_bytes = 0\<rparr>] 0 0 1208925819614629174706176 = None"
  by (simp add: decompose_diverges averagePartSize_def minPartSize_def ceil_quot_def round_int_def)

text \<open>
  Claim C10, amended. With \<open>0 \<le> uploadSize \<le> totalSize \<le> 2 ^ 53\<close>, \<^verbatim>\<open>_decompose\<close>
  returns a list, whatever \<open>maxParts\<close> is, and every part it pushed has a strictly positive
  size (each round of the loop takes bytes off \<^verbatim>\<open>leftSize\<close>). The effective part size is
  strictly positive whenever the file is not empty. When \<open>maxParts\<close> equals the number of
  accepted parts, the computed minimum and the effective part size are \<^verbatim>\<open>Infinity\<close> for a
  file that is not empty, and \<^verbatim>\<open>NaN\<close> for an empty file, for which the list is empty.
  When \<open>maxParts\<close> is smaller, the computed minimum is a number that is at most zero and
  the effective part size is the baseline.
\<close>
theorem decompose_terminates:
  assumes "0 \<le> uploadSize" and "uploadSize \<le> totalSize" and "totalSize \<le> 2 ^ 53"
  shows "(\<exists>ps. decompose orderedParts maxParts uploadSize totalSize = Some ps
            \<and> (\<forall>p \<in> set ps. js_gt (partSize p) (Num 0)))
         \<and> (0 < totalSize \<longrightarrow> js_gt (averagePartSize orderedParts maxParts totalSize) (Num 0))
         \<and> (maxParts = int (length orderedParts) \<and> 0 < totalSize \<longrightarrow>
              minPartSize orderedParts maxParts totalSize = PosInfinity
              \<and> averagePartSize orderedParts maxParts totalSize = PosInfinity)
         \<and> (maxParts = int (length orderedParts) \<and> totalSize = 0 \<longrightarrow>
              minPartSize orderedParts maxParts totalSize = NaN
              \<and> averagePartSize orderedParts maxParts totalSize = NaN
              \<and> decompose orderedParts maxParts uploadSize totalSize = Some [])
         \<and> (maxParts < int (length orderedParts) \<longrightarrow>
              (\<exists>m \<le> 0. minPartSize orderedParts maxParts totalSize = Num m)
              \<and> averagePartSize orderedParts maxParts totalSize = Num kPartSize)"
proof -
  have t: "0 \<le> totalSize" using assms by simp
  obtain a where "0 < a"
    and res: "decompose orderedParts maxParts uploadSize totalSize =
                Some (plan a (totalSize - uploadSize) uploadSize (int (length orderedParts) + 1))"
    using decompose_is_plan [OF assms] by blast
  have run: "\<exists>ps. decompose orderedParts maxParts uploadSize totalSize = Some ps
            \<and> (\<forall>p \<in> set ps. js_gt (partSize p) (Num 0))"
    using res plan_positive by blast
  have pos: "js_gt (averagePartSize orderedParts maxParts totalSize) (Num 0)" if "0 < totalSize"
    using avg_cases [OF t, of orderedParts maxParts] that
    by (auto simp: kPartSize_def)
  have inf: "minPartSize orderedParts maxParts totalSize = PosInfinity
              \<and> averagePartSize orderedParts maxParts totalSize = PosInfinity"
    if "maxParts = int (length orderedParts) \<and> 0 < totalSize"
    using that by (simp add: averagePartSize_def minPartSize_def ceil_quot_def round_int_def)
  have nan: "minPartSize orderedParts maxParts totalSize = NaN
              \<and> averagePartSize orderedParts maxParts totalSize = NaN
              \<and> decompose orderedParts maxParts uploadSize totalSize = Some []"
    if z: "maxParts = int (length orderedParts) \<and> totalSize = 0"
  proof -
    from z assms have u: "uploadSize = 0" by simp
    have "js_sub (Num 0) (Num 0) = Num 0" using js_sub_safe [of 0 0] by simp
    then show ?thesis
      using z u by (simp add: decompose_def averagePartSize_def minPartSize_def ceil_quot_def
          round_int_def loop_no_bytes)
  qed
  have neg: "(\<exists>m \<le> 0. minPartSize orderedParts maxParts totalSize = Num m)
              \<and> averagePartSize orderedParts maxParts totalSize = Num kPartSize"
    if lt: "maxParts < int (length orderedParts)"
  proof -
    have "round_int (maxParts - int (length orderedParts)) < 0"
      using lt by (intro round_int_neg) simp
    from ceil_quot_negative_budget [OF t assms(3) this]
    obtain m where m: "m \<le> 0" "minPartSize orderedParts maxParts totalSize = Num m"
      unfolding minPartSize_def by blast
    have "0 \<le> kPartSize" by (simp add: kPartSize_def)
    with m have "averagePartSize orderedParts maxParts totalSize = Num kPartSize"
      by (simp add: averagePartSize_def)
    with m show ?thesis by blast
  qed
  from run pos inf nan neg show ?thesis by blast
qed

text \<open>The termination theorem at a 45 MiB file with one accepted (empty) part and
  \<open>maxParts = 0\<close>, at the same file with no accepted part, and at an empty file.\<close>
theorem decompose_terminates_witness:
  "(0::int) \<le> 0 \<and> (0::int) \<le> 47185920 \<and> (47185920::int) \<le> 2 ^ 53
   \<and> (\<exists>ps. decompose [\<lparr>upPartNumber = 1, size_bytes = 0\<rparr>] 0 0 47185920 = Some ps
          \<and> (\<forall>p \<in> set ps. js_gt (partSize p) (Num 0)))
   \<and> js_gt (averagePartSize [\<lparr>upPartNumber = 1, size_bytes = 0\<rparr>] 0 47185920) (Num 0)
   \<and> (\<exists>m \<le> 0. minPartSize [\<lparr>upPartNumber = 1, size_bytes = 0\<rparr>] 0 47185920 = Num m)
   \<and> averagePartSize [\<lparr>upPartNumber = 1, size_bytes = 0\<rparr>] 0 47185920 = Num kPartSize
   \<and> minPartSize [] 0 47185920 = PosInfinity \<and> averagePartSize [] 0 47185920 = PosInfinity
   \<and> (\<exists>ps. decompose [] 0 0 47185920 = Some ps \<and> (\<forall>p \<in> set ps. js_gt (partSize p) (Num 0)))
   \<and> minPartSize [] 0 0 = NaN \<and> averagePartSize [] 0 0 = NaN \<and> decompose [] 0 0 0 = Some []"
  using decompose_terminates [of 0 47185920 "[\<lparr>upPartNumber = 1, size_bytes = 0\<rparr>]" 0]
    decompose_terminates [of 0 47185920 "[]" 0]
    decompose_terminates [of 0 0 "[]" 0]
  by (simp add: kPartSize_def)


section \<open>Properties of the transport\<close>

lemmas demo_defs =
  demo_headers_def demo_file_def demo_platform_def demo_world_def demo_session_def
  MultiTransport_def

lemma size_guard: "bool_to_number (not_number n) < 4 * 1024 * 1024 * 1024"
  by (simp add: bool_to_number_def)

lemma computedFileMD5_any_size:
  "\<not> truthy_str (md5sum s) \<Longrightarrow> local_file w = Some st \<Longrightarrow> md5stream w = Returned digest \<Longrightarrow>
   computedFileMD5 w s = (Returned (Some digest), s\<lparr>md5sum := Some digest\<rparr>)"
  using size_guard [of "size_of st"] by (simp add: computedFileMD5_def statSync_def)

lemma checkError_while_paused:
  "paused s \<Longrightarrow> checkError err s = (Returned (), emit (EvPause (uuid s)) s)"
  by (simp add: checkError_def)

lemma pause_with_stream: "stream s \<Longrightarrow> pause s = s\<lparr>paused := True\<rparr>"
  by (simp add: pause_def Let_def)

lemma pause_then_error:
  "stream s \<Longrightarrow> checkError err (pause s) = (Returned (), emit (EvPause (uuid s)) (s\<lparr>paused := True\<rparr>))"
  by (simp add: pause_with_stream checkError_while_paused)

lemma checkError_string:
  "\<not> paused s \<Longrightarrow>
   checkError (Prim (JStr str)) s = (Returned (), emit (EvError (uuid s) (JStr str)) (s\<lparr>paused := True\<rparr>))"
  by (simp add: checkError_def)

lemma checkError_Error_instance:
  "\<not> paused s \<Longrightarrow> get_prop (Obj True props) ''message'' = Returned msg \<Longrightarrow>
   checkError (Obj True props) s = (Returned (), emit (EvError (uuid s) msg) (s\<lparr>paused := True\<rparr>))"
  by (simp add: checkError_def)

lemma checkError_message:
  "\<not> paused s \<Longrightarrow> get_prop (Obj False props) ''message'' = Returned (JStr m) \<Longrightarrow>
   checkError (Obj False props) s = (Returned (), emit (EvError (uuid s) (JStr m)) (s\<lparr>paused := True\<rparr>))"
  by (simp add: checkError_def)

lemma checkError_status_code:
  "\<not> paused s \<Longrightarrow> get_prop (Obj False props) ''message'' = Returned msg \<Longrightarrow> \<not> is_string msg \<Longrightarrow>
   map_of props ''status_code'' = Some code \<Longrightarrow>
   checkError (Obj False props) s =
     (Returned (), emit (EvError (uuid s) (JStr (''Server code = '' @ to_string code))) (s\<lparr>paused := True\<rparr>))"
  by (simp add: checkError_def map_of_eq_Some_iff weak_map_of_SomeI domI dom_map_of_conv_image_fst [symmetric])

lemma checkError_unknown:
  "\<not> paused s \<Longrightarrow> get_prop (Obj False props) ''message'' = Returned msg \<Longrightarrow> \<not> is_string msg \<Longrightarrow>
   map_of props ''status_code'' = None \<Longrightarrow>
   checkError (Obj False props) s =
     (Returned (), emit (EvError (uuid s) (JStr unknown_error_text)) (s\<lparr>paused := True\<rparr>))"
  by (simp add: checkError_def map_of_eq_None_iff)


lemma statSync_Some: "local_file w = Some st \<Longrightarrow> statSync w = Returned st"
  by (simp add: statSync_def)

lemma statSync_None: "local_file w = None \<Longrightarrow> statSync w = Thrown (new_Error ''ENOENT'')"
  by (simp add: statSync_def)

lemma fetchMetadata_Returned:
  "getObjectMetadata w (calls (call (GetObjectMetadata (bucketName s) (objectKey s)) s)) = Returned hdrs \<Longrightarrow>
   fetchMetadata P w s =
     (Returned \<lparr>xMetaSize = header_number P (hdrs ''content-length''),
                xMetaFrom = hdrs (xMetaFrom_key P),
                xMetaModifiedTime = header_number P (hdrs (xMetaMTime_key P)),
                xMetaMD5 = hdrs (xMetaMD5_key P)\<rparr>,
      call (GetObjectMetadata (bucketName s) (objectKey s)) s)"
  by (simp add: fetchMetadata_def Let_def)

lemma fetchMetadata_Thrown:
  "getObjectMetadata w (calls (call (GetObjectMetadata (bucketName s) (objectKey s)) s)) = Thrown ex \<Longrightarrow>
   fetchMetadata P w s = (Thrown ex, call (GetObjectMetadata (bucketName s) (objectKey s)) s)"
  by (simp add: fetchMetadata_def Let_def)

lemma checkConsistency_no_file:
  "local_file w = None \<Longrightarrow> fst (checkConsistency P w s) = Thrown (new_Error ''ENOENT'')"
  by (simp add: checkConsistency_def statSync_None)

lemma checkConsistency_fetch_failed:
  assumes "local_file w = Some st"
    and "getObjectMetadata w (calls (call (GetObjectMetadata (bucketName s) (objectKey s)) s)) = Thrown ex"
  shows "fst (checkConsistency P w s) =
           (case get_prop ex ''status_code'' of
              Thrown e \<Rightarrow> Thrown e
            | Returned code \<Rightarrow> if code = JNum 404 then Returned False else Thrown ex)"
  using assms
  by (simp add: checkConsistency_def statSync_Some fetchMetadata_Thrown split: outcome.splits)

lemma checkConsistency_fetched:
  assumes "local_file w = Some st"
    and "getObjectMetadata w (calls (call (GetObjectMetadata (bucketName s) (objectKey s)) s)) = Returned hdrs"
  shows "fst (checkConsistency P w s) =
           (if js_strict_eq (Num (size_of st)) (header_number P (hdrs ''content-length'')) then
              if hdrs (xMetaFrom_key P) = Some (TransportOrigin P) then
                if truthy_str (hdrs (xMetaMD5_key P)) then
                  (case fst (computedFileMD5 w (call (GetObjectMetadata (bucketName s) (objectKey s)) s)) of
                     Thrown e \<Rightarrow> Thrown e
                   | Returned digest \<Rightarrow> Returned (hdrs (xMetaMD5_key P) = digest))
                else Returned (js_strict_eq (Num (mtime st)) (header_number P (hdrs (xMetaMTime_key P))))
              else Returned True
            else Returned False)"
  using assms
  by (simp add: checkConsistency_def statSync_Some fetchMetadata_Returned
      split: outcome.splits prod.splits)


text \<open>
  Claim C4. \<^verbatim>\<open>_checkConsistency\<close> returns true exactly when the local file is there, the
  metadata call answers, the stored size equals the file's size and, where the origin tag
  is this transport's, either the remote hash is present and is the locally computed one,
  or it is absent (or empty) and the stored modification time equals the file's, in
  milliseconds. With a foreign or absent origin tag, equal sizes suffice. A metadata call
  that fails with \<^verbatim>\<open>status_code\<close> 404 makes it return false; different sizes, a different
  hash and a different modification time each make it return false.
\<close>
theorem checkConsistency_decides:
  "(fst (checkConsistency P w s) = Returned True \<longleftrightarrow>
      (\<exists>st hdrs.
         local_file w = Some st
         \<and> getObjectMetadata w (calls (call (GetObjectMetadata (bucketName s) (objectKey s)) s)) = Returned hdrs
         \<and> js_strict_eq (Num (size_of st)) (header_number P (hdrs ''content-length''))
         \<and> (hdrs (xMetaFrom_key P) = Some (TransportOrigin P) \<longrightarrow>
               (truthy_str (hdrs (xMetaMD5_key P))
                \<and> fst (computedFileMD5 w (call (GetObjectMetadata (bucketName s) (objectKey s)) s))
                    = Returned (hdrs (xMetaMD5_key P)))
               \<or> (\<not> truthy_str (hdrs (xMetaMD5_key P))
                   \<and> js_strict_eq (Num (mtime st)) (header_number P (hdrs (xMetaMTime_key P)))))))
   \<and> (\<forall>st hdrs.
         local_file w = Some st
         \<and> getObjectMetadata w (calls (call (GetObjectMetadata (bucketName s) (objectKey s)) s)) = Returned hdrs
         \<and> js_strict_eq (Num (size_of st)) (header_number P (hdrs ''content-length''))
         \<and> hdrs (xMetaFrom_key P) \<noteq> Some (TransportOrigin P)
         \<longrightarrow> fst (checkConsistency P w s) = Returned True)
   \<and> (\<forall>st ex.
         local_file w = Some st
         \<and> getObjectMetadata w (calls (call (GetObjectMetadata (bucketName s) (objectKey s)) s)) = Thrown ex
         \<and> get_prop ex ''status_code'' = Returned (JNum 404)
         \<longrightarrow> fst (checkConsistency P w s) = Returned False)
   \<and> (\<forall>st hdrs.
         local_file w = Some st
         \<and> getObjectMetadata w (calls (call (GetObjectMetadata (bucketName s) (objectKey s)) s)) = Returned hdrs
         \<and> \<not> js_strict_eq (Num (size_of st)) (header_number P (hdrs ''content-length''))
         \<longrightarrow> fst (checkConsistency P w s) = Returned False)
   \<and> (\<forall>st hdrs digest.
         local_file w = Some st
         \<and> getObjectMetadata w (calls (call (GetObjectMetadata (bucketName s) (objectKey s)) s)) = Returned hdrs
         \<and> js_strict_eq (Num (size_of st)) (header_number P (hdrs ''content-length''))
         \<and> hdrs (xMetaFrom_key P) = Some (TransportOrigin P)
         \<and> truthy_str (hdrs (xMetaMD5_key P))
         \<and> fst (computedFileMD5 w (call (GetObjectMetadata (bucketName s) (objectKey s)) s)) = Returned digest
         \<and> digest \<noteq> hdrs (xMetaMD5_key P)
         \<longrightarrow> fst (checkConsistency P w s) = Returned False)
   \<and> (\<forall>st hdrs.
         local_file w = Some st
         \<and> getObjectMetadata w (calls (call (GetObjectMetadata (bucketName s) (objectKey s)) s)) = Returned hdrs
         \<and> js_strict_eq (Num (size_of st)) (header_number P (hdrs ''content-length''))
         \<and> hdrs (xMetaFrom_key P) = Some (TransportOrigin P)
         \<and> \<not> truthy_str (hdrs (xMetaMD5_key P))
         \<and> \<not> js_strict_eq (Num (mtime st)) (header_number P (hdrs (xMetaMTime_key P)))
         \<longrightarrow> fst (checkConsistency P w s) = Returned False)"
  (is "(?L \<longleftrightarrow> ?R) \<and> ?foreign \<and> ?absent \<and> ?sizes \<and> ?hashes \<and> ?mtimes")
proof -
  let ?s1 = "call (GetObjectMetadata (bucketName s) (objectKey s)) s"
  have iff: "?L \<longleftrightarrow> ?R"
  proof (cases "local_file w")
    case None
    then show ?thesis by (simp add: checkConsistency_no_file)
  next
    case (Some st)
    show ?thesis
    proof (cases "getObjectMetadata w (calls ?s1)")
      case (Thrown ex)
      have "fst (checkConsistency P w s) \<noteq> Returned True"
        by (simp add: checkConsistency_fetch_failed [OF Some Thrown] split: outcome.splits)
      then show ?thesis using Some Thrown by simp
    next
      case (Returned hdrs)
      show ?thesis
        unfolding checkConsistency_fetched [OF Some Returned]
        using Some Returned by (auto split: outcome.splits)
    qed
  qed
  have foreign: ?foreign
    by (simp add: checkConsistency_fetched)
  have absent: ?absent
    by (simp add: checkConsistency_fetch_failed)
  have sizes: ?sizes
    by (simp add: checkConsistency_fetched)
  have hashes: ?hashes
    by (auto simp: checkConsistency_fetched)
  have mtimes: ?mtimes
    by (simp add: checkConsistency_fetched)
  from iff foreign absent sizes hashes mtimes show ?thesis by blast
qed


text \<open>The consistency theorem on a 45 MiB file, against seven answers of the service: the
  same hash, no hash and the same time, a foreign object of the same size, a 404, another
  size, another hash, no hash and another time.\<close>
theorem checkConsistency_decides_witness:
  "fst (checkConsistency demo_platform
         (demo_world (Some demo_file)
            (Returned (demo_headers ''47185920'' (Some ''bce-client'')
                         (Some ''9e107d9d372bb6826bd81d3542a419d6'') ''1'')))
         demo_session) = Returned True
   \<and> fst (checkConsistency demo_platform
         (demo_world (Some demo_file)
            (Returned (demo_headers ''47185920'' (Some ''bce-client'') None ''1500000000000'')))
         demo_session) = Returned True
   \<and> fst (checkConsistency demo_platform
         (demo_world (Some demo_file)
            (Returned (demo_headers ''47185920'' None None ''1'')))
         demo_session) = Returned True
   \<and> fst (checkConsistency demo_platform
         (demo_world (Some demo_file) (Thrown (Obj False [(''status_code'', JNum 404)])))
         demo_session) = Returned False
   \<and> fst (checkConsistency demo_platform
         (demo_world (Some demo_file)
            (Returned (demo_headers ''47185921'' None None ''1500000000000'')))
         demo_session) = Returned False
   \<and> fst (checkConsistency demo_platform
         (demo_world (Some demo_file)
            (Returned (demo_headers ''47185920'' (Some ''bce-client'')
                         (Some ''e4d909c290d0fb1ca068ffaddf22cbd0'') ''1500000000000'')))
         demo_session) = Returned False
   \<and> fst (checkConsistency demo_platform
         (demo_world (Some demo_file)
            (Returned (demo_headers ''47185920'' (Some ''bce-client'') None ''1'')))
         demo_session) = Returned False"
  using
    checkConsistency_decides [of demo_platform
      "demo_world (Some demo_file)
         (Returned (demo_headers ''47185920'' (Some ''bce-client'')
                      (Some ''9e107d9d372bb6826bd81d3542a419d6'') ''1''))" demo_session]
    checkConsistency_decides [of demo_platform
      "demo_world (Some demo_file) (Thrown (Obj False [(''status_code'', JNum 404)]))" demo_session]
  by (simp add: demo_defs checkConsistency_def statSync_def fetchMetadata_def computedFileMD5_def
      call_def header_number_def js_strict_eq_def truthy_str_def bool_to_number_def
      not_number_def Let_def)


text \<open>
  Claim C1 says that a file of 4 GiB or more is not hashed and that the consistency check
  then compares modification times. On a file of exactly 4 GiB with no digest cached,
  \<^verbatim>\<open>_computedFileMD5\<close> computes the digest and caches it (the guard compares the boolean
  \<^verbatim>\<open>!size\<close> with the ceiling, see \<open>size_guard\<close>), and against a remote object that carries
  this digest and another modification time the check answers true, by the digest.
\<close>
theorem md5_computed_for_4GiB_file:
  "computedFileMD5
      (demo_world (Some \<lparr>mtime = 1500000000000, size_of = 4 * 1024 * 1024 * 1024\<rparr>)
         (Thrown (Obj False [(''status_code'', JNum 404)])))
      demo_session
   = (Returned (Some ''9e107d9d372bb6826bd81d3542a419d6''),
      demo_session\<lparr>md5sum := Some ''9e107d9d372bb6826bd81d3542a419d6''\<rparr>)
   \<and> fst (checkConsistency demo_platform
         (demo_world (Some \<lparr>mtime = 1500000000000, size_of = 4 * 1024 * 1024 * 1024\<rparr>)
            (Returned (demo_headers ''4294967296'' (Some ''bce-client'')
                         (Some ''9e107d9d372bb6826bd81d3542a419d6'') ''1'')))
         demo_session) = Returned True"
  by (simp add: demo_defs checkConsistency_def statSync_def fetchMetadata_def computedFileMD5_def
      call_def header_number_def js_strict_eq_def truthy_str_def bool_to_number_def
      not_number_def Let_def)

text \<open>
  Claim C8 says that a thrown value that is neither a string nor an \<^verbatim>\<open>Error\<close>, has no string
  \<^verbatim>\<open>message\<close> and no \<^verbatim>\<open>status_code\<close> is surfaced with the fixed generic message. For the
  thrown number 42 and the flag false, the handler itself throws (\<^verbatim>\<open>'status_code' in 42\<close> is
  a \<^verbatim>\<open>TypeError\<close>): the flag is set and nothing is emitted. Strings and objects are surfaced
  as the claim says: \<open>checkError_string\<close>, \<open>checkError_Error_instance\<close>,
  \<open>checkError_message\<close>, \<open>checkError_status_code\<close>, \<open>checkError_unknown\<close>.
\<close>
theorem checkError_number_throws:
  "checkError (Prim (JNum 42)) (demo_session\<lparr>paused := False\<rparr>)
     = (Thrown TypeError, demo_session\<lparr>paused := True\<rparr>)
   \<and> emitted (snd (checkError (Prim (JNum 42)) (demo_session\<lparr>paused := False\<rparr>))) = []"
  by (simp add: checkError_def demo_session_def MultiTransport_def)

text \<open>
  Claim C5 says that every error that reaches the handler with the flag false sets the flag
  and emits an \<^verbatim>\<open>error\<close> notification. For the thrown value \<^verbatim>\<open>undefined\<close> the flag is set,
  the read of \<^verbatim>\<open>err.message\<close> throws, and nothing is emitted. The rest of the claim holds for
  every thrown value: with the flag already true a \<^verbatim>\<open>pause\<close> is emitted and no \<^verbatim>\<open>error\<close>
  (\<open>checkError_while_paused\<close>), also after \<^verbatim>\<open>pause()\<close> with a stream set
  (\<open>pause_then_error\<close>).
\<close>
theorem checkError_undefined_emits_nothing:
  "fst (checkError (Prim JUndefined) (demo_session\<lparr>paused := False\<rparr>)) = Thrown TypeError
   \<and> paused (snd (checkError (Prim JUndefined) (demo_session\<lparr>paused := False\<rparr>)))
   \<and> emitted (snd (checkError (Prim JUndefined) (demo_session\<lparr>paused := False\<rparr>))) = []"
  by (simp add: checkError_def demo_session_def MultiTransport_def)

text \<open>
  Claim C6. When the local path does not exist, \<^verbatim>\<open>start()\<close> returns after emitting one
  \<^verbatim>\<open>error\<close> notification whose text begins with ``file not found'' (the path printed is
  \<^verbatim>\<open>this.localPath\<close>, a property the class never sets), and no call is made on the storage
  client.
\<close>
theorem start_missing_file:
  assumes "local_file w = None"
  shows "\<exists>s'. start_session P w s = Some (Returned (), s')
           \<and> emitted s' = emitted s @ [EvError (uuid s) (JStr ''file not found undefined'')]
           \<and> calls s' = calls s \<and> paused s'"
  using assms
  by (simp add: start_session_def start_run_def existsSync_def checkError_def new_Error_def emit_def)

text \<open>The missing-file theorem on the session of the test script.\<close>
theorem start_missing_file_witness:
  "local_file (demo_world None (Thrown (Prim JNull))) = None
   \<and> (\<exists>s'. start_session demo_platform (demo_world None (Thrown (Prim JNull))) demo_session
              = Some (Returned (), s')
           \<and> emitted s' = emitted demo_session @ [EvError (uuid demo_session) (JStr ''file not found undefined'')]
           \<and> calls s' = calls demo_session \<and> paused s')"
  using start_missing_file [of "demo_world None (Thrown (Prim JNull))" demo_platform demo_session]
  by (simp add: demo_world_def)


lemma keeps_refl: "keeps s s"
  by (simp add: keeps_def)

lemma keeps_trans: "keeps s s1 \<Longrightarrow> keeps s1 s2 \<Longrightarrow> keeps s s2"
  by (simp add: keeps_def)

lemma call_keeps: "keeps s (call c s)"
  by (simp add: keeps_def call_def pauses_def)

lemma emit_keeps: "\<not> is_pause ev \<Longrightarrow> keeps s (emit ev s)"
  by (simp add: keeps_def emit_def pauses_def)

lemma computedFileMD5_keeps: "keeps s (snd (computedFileMD5 w s))"
  by (simp add: computedFileMD5_def keeps_def pauses_def split: outcome.splits)

lemma fetchMetadata_keeps: "keeps s (snd (fetchMetadata P w s))"
  by (simp add: fetchMetadata_def Let_def keeps_def pauses_def call_def split: outcome.splits)

lemma initUploadId_keeps: "keeps s (snd (initUploadId w s))"
  by (simp add: initUploadId_def Let_def call_keeps)

lemma fetchParts_keeps: "keeps s (snd (fetchParts w s))"
  by (simp add: fetchParts_def Let_def call_keeps)

lemma invoke_keeps: "keeps s (snd (invoke w p s))"
  by (simp add: invoke_def Let_def keeps_def pauses_def call_def split: outcome.splits)

lemma resume_keeps: "keeps s (snd (resume w ps s))"
proof (induction ps arbitrary: s)
  case Nil
  show ?case by (simp add: keeps_refl)
next
  case (Cons p ps)
  obtain r s1 where inv: "invoke w p s = (r, s1)" by (cases "invoke w p s")
  have s1: "keeps s s1" using invoke_keeps [of s w p] inv by simp
  have rest: "keeps s (snd (resume w ps s1))" using s1 Cons.IH [of s1] by (rule keeps_trans)
  show ?case
  proof (cases r)
    case (Returned u)
    with inv rest show ?thesis by simp
  next
    case (Thrown err)
    with inv rest s1 show ?thesis by simp
  qed
qed

lemma checkConsistency_keeps: "keeps s (snd (checkConsistency P w s))"
proof (cases "statSync w")
  case (Thrown e)
  then show ?thesis by (simp add: checkConsistency_def keeps_refl)
next
  case (Returned st)
  obtain r s1 where fm: "fetchMetadata P w s = (r, s1)" by (cases "fetchMetadata P w s")
  have s1: "keeps s s1" using fetchMetadata_keeps [of s P w] fm by simp
  show ?thesis
  proof (cases r)
    case (Thrown ex)
    with Returned fm s1 show ?thesis
      by (simp add: checkConsistency_def split: outcome.splits)
  next
    case meta: (Returned meta)
    obtain r2 s2 where md: "computedFileMD5 w s1 = (r2, s2)" by (cases "computedFileMD5 w s1")
    have "keeps s1 s2" using computedFileMD5_keeps [of s1 w] md by simp
    with s1 have s2: "keeps s s2" by (rule keeps_trans)
    show ?thesis
      using Returned fm meta md s1 s2
      by (simp add: checkConsistency_def split: outcome.splits)
  qed
qed

lemma completeUpload_keeps: "keeps s (snd (completeUpload P w s))"
proof -
  obtain r s1 where fp: "fetchParts w s = (r, s1)" by (cases "fetchParts w s")
  have s1: "keeps s s1" using fetchParts_keeps [of s w] fp by simp
  obtain r2 s2 where md: "computedFileMD5 w s1 = (r2, s2)" by (cases "computedFileMD5 w s1")
  have "keeps s1 s2" using computedFileMD5_keeps [of s1 w] md by simp
  with s1 have s2: "keeps s s2" by (rule keeps_trans)
  have "keeps s2 (call c s2)" for c by (rule call_keeps)
  with s2 have s3: "keeps s (call c s2)" for c by (rule keeps_trans)
  show ?thesis
    using fp md s1 s2 s3
    by (simp add: completeUpload_def Let_def split: outcome.splits)
qed


lemma checkFinish_paused: "paused (checkFinish s)"
  by (simp add: checkFinish_def emit_def)

lemma checkFinish_running: "\<not> paused s \<Longrightarrow> pauses (checkFinish s) = pauses s"
  by (simp add: checkFinish_def emit_def pauses_def)

lemma checkError_effect:
  assumes "\<not> paused s"
  shows "snd (checkError err s) = s\<lparr>paused := True\<rparr>
         \<or> (\<exists>v. snd (checkError err s) = emit (EvError (uuid s) v) (s\<lparr>paused := True\<rparr>))"
proof (cases err)
  case (Prim v)
  with assms show ?thesis
    by (cases v) (auto simp: checkError_def)
next
  case (Obj isError props)
  obtain msg where msg: "get_prop (Obj isError props) ''message'' = Returned msg"
    by (cases "map_of props ''message''") simp_all
  have "\<exists>v. snd (checkError (Obj isError props) s) = emit (EvError (uuid s) v) (s\<lparr>paused := True\<rparr>)"
  proof (cases isError)
    case True
    then have e: "isError = True" by simp
    have "snd (checkError (Obj True props) s) = emit (EvError (uuid s) msg) (s\<lparr>paused := True\<rparr>)"
      using checkError_Error_instance [OF assms msg [unfolded e]] by simp
    then show ?thesis unfolding e by blast
  next
    case False
    then have notError: "isError = False" by simp
    note msg' = msg [unfolded notError]
    show ?thesis
    proof (cases "is_string msg")
      case True
      then obtain m where m: "msg = JStr m" by (cases msg) simp_all
      have "snd (checkError (Obj False props) s) = emit (EvError (uuid s) (JStr m)) (s\<lparr>paused := True\<rparr>)"
        using checkError_message [OF assms msg' [unfolded m]] by simp
      then show ?thesis unfolding notError by blast
    next
      case noString: False
      show ?thesis
      proof (cases "map_of props ''status_code''")
        case None
        have "snd (checkError (Obj False props) s)
                = emit (EvError (uuid s) (JStr unknown_error_text)) (s\<lparr>paused := True\<rparr>)"
          using checkError_unknown [OF assms msg' noString None] by simp
        then show ?thesis unfolding notError by blast
      next
        case (Some code)
        have "snd (checkError (Obj False props) s)
                = emit (EvError (uuid s) (JStr (''Server code = '' @ to_string code))) (s\<lparr>paused := True\<rparr>)"
          using checkError_status_code [OF assms msg' noString Some] by simp
        then show ?thesis unfolding notError by blast
      qed
    qed
  qed
  then show ?thesis using Obj by simp
qed

lemma checkError_paused: "paused (snd (checkError err s))"
proof (cases "paused s")
  case True
  then show ?thesis by (simp add: checkError_while_paused emit_def)
next
  case False
  from checkError_effect [OF this, of err] show ?thesis by (auto simp: emit_def)
qed

lemma checkError_running: "\<not> paused s \<Longrightarrow> pauses (snd (checkError err s)) = pauses s"
  using checkError_effect [of s err] by (auto simp: pauses_def emit_def)

lemma finish_keeps:
  assumes "keeps s s3"
    and "(case completeUpload P w s3 of
            (Thrown e, s4) \<Rightarrow> Some (Thrown e, s4)
          | (Returned u', s4) \<Rightarrow> Some (Returned (), checkFinish s4)) = Some (r, s')"
  shows "\<exists>s''. keeps s s'' \<and> ((\<exists>e. r = Thrown e \<and> s' = s'') \<or> (r = Returned () \<and> s' = checkFinish s''))"
proof -
  obtain r4 s4 where cu: "completeUpload P w s3 = (r4, s4)" by (cases "completeUpload P w s3")
  have "keeps s3 s4" using completeUpload_keeps [of s3 P w] cu by simp
  with assms(1) have s4: "keeps s s4" by (rule keeps_trans)
  show ?thesis
  proof (cases r4)
    case (Thrown e)
    with assms(2) cu s4 show ?thesis by auto
  next
    case (Returned u')
    with assms(2) cu s4 show ?thesis by auto
  qed
qed

lemma start_upload_keeps:
  assumes "start_upload P w st s = Some (r, s')"
  shows "\<exists>s''. keeps s s'' \<and> ((\<exists>e. r = Thrown e \<and> s' = s'') \<or> (r = Returned () \<and> s' = checkFinish s''))"
proof -
  obtain r1 s1 where fp: "fetchParts w s = (r1, s1)" by (cases "fetchParts w s")
  have s1: "keeps s s1" using fetchParts_keeps [of s w] fp by simp
  show ?thesis
  proof (cases r1)
    case (Thrown e)
    with assms fp s1 show ?thesis by (auto simp: start_upload_def)
  next
    case (Returned body)
    define uploaded where
      "uploaded = foldl (\<lambda>pre cur. round_int (pre + size_bytes cur)) 0
                    (sort_key upPartNumber (body_parts body))"
    define s2 where "s2 = s1\<lparr>uploadedSize := Some (Num uploaded)\<rparr>"
    have s2: "keeps s s2" using s1 by (simp add: s2_def keeps_def pauses_def)
    obtain remainParts where dec:
      "decompose (sort_key upPartNumber (body_parts body)) (body_maxParts body)
         uploaded (size_of st) = Some remainParts"
      using assms fp Returned by (auto simp: start_upload_def Let_def uploaded_def split: option.splits)
    show ?thesis
    proof (cases "remainParts = []")
      case True
      with assms fp Returned dec
      have "(case completeUpload P w s2 of
               (Thrown e, s4) \<Rightarrow> Some (Thrown e, s4)
             | (Returned u', s4) \<Rightarrow> Some (Returned (), checkFinish s4)) = Some (r, s')"
        by (simp add: start_upload_def Let_def s2_def uploaded_def)
      with s2 show ?thesis by (rule finish_keeps)
    next
      case False
      define s2e where "s2e = emit (EvStart (uuid s2) (uploadId s2) (localPath s2)) s2"
      have "keeps s2 s2e" unfolding s2e_def by (rule emit_keeps) simp
      with s2 have s2e: "keeps s s2e" by (rule keeps_trans)
      obtain r3 s3 where rs: "resume w remainParts s2e = (r3, s3)" by (cases "resume w remainParts s2e")
      have "keeps s2e s3" using resume_keeps [of s2e w remainParts] rs by simp
      with s2e have s3: "keeps s s3" by (rule keeps_trans)
      have unfolded: "start_upload P w st s =
        (case r3 of Thrown e \<Rightarrow> Some (Thrown e, s3)
         | Returned u \<Rightarrow>
             (case completeUpload P w s3 of
                (Thrown e, s4) \<Rightarrow> Some (Thrown e, s4)
              | (Returned u', s4) \<Rightarrow> Some (Returned (), checkFinish s4)))"
        using fp Returned dec False rs
        by (simp add: start_upload_def Let_def s2_def s2e_def uploaded_def)
      show ?thesis
      proof (cases r3)
        case (Thrown e)
        with assms unfolded s3 show ?thesis by auto
      next
        case ok: (Returned u)
        with assms unfolded
        have "(case completeUpload P w s3 of
                 (Thrown e, s4) \<Rightarrow> Some (Thrown e, s4)
               | (Returned u', s4) \<Rightarrow> Some (Returned (), checkFinish s4)) = Some (r, s')"
          by simp
        with s3 show ?thesis by (rule finish_keeps)
      qed
    qed
  qed
qed

lemma start_try_keeps:
  assumes "start_try P w s = Some (r, s')"
  shows "\<exists>s''. keeps s s'' \<and> ((\<exists>e. r = Thrown e \<and> s' = s'') \<or> (r = Returned () \<and> s' = checkFinish s''))"
proof (cases "statSync w")
  case (Thrown e)
  with assms show ?thesis by (auto simp: start_try_def keeps_refl)
next
  case (Returned st)
  show ?thesis
  proof (cases "truthy_str (uploadId s)")
    case True
    with assms Returned have "start_upload P w st s = Some (r, s')" by (simp add: start_try_def)
    then show ?thesis by (rule start_upload_keeps)
  next
    case False
    obtain r1 s1 where cc: "checkConsistency P w s = (r1, s1)" by (cases "checkConsistency P w s")
    have s1: "keeps s s1" using checkConsistency_keeps [of s P w] cc by simp
    show ?thesis
    proof (cases r1)
      case (Thrown e)
      with assms Returned False cc s1 show ?thesis by (auto simp: start_try_def)
    next
      case consistent: (Returned c)
      show ?thesis
      proof (cases c)
        case True
        with assms Returned False cc consistent s1 show ?thesis by (auto simp: start_try_def)
      next
        case differs: False
        obtain r2 s2 where iu: "initUploadId w s1 = (r2, s2)" by (cases "initUploadId w s1")
        have "keeps s1 s2" using initUploadId_keeps [of s1 w] iu by simp
        with s1 have s2: "keeps s s2" by (rule keeps_trans)
        show ?thesis
        proof (cases r2)
          case (Thrown e)
          with assms Returned False cc consistent differs iu s2 show ?thesis
            by (auto simp: start_try_def)
        next
          case (Returned body)
          have s2': "keeps s (s2\<lparr>uploadId := body_uploadId body\<rparr>)"
            using s2 by (simp add: keeps_def pauses_def)
          have "start_upload P w st (s2\<lparr>uploadId := body_uploadId body\<rparr>) = Some (r, s')"
            using assms \<open>statSync w = Returned st\<close> False cc consistent differs iu Returned
            by (simp add: start_try_def)
          from start_upload_keeps [OF this] s2' show ?thesis
            using keeps_trans by blast
        qed
      qed
    qed
  qed
qed

lemma start_run_running:
  assumes "start_run P w s = Some (r, s')" and "\<not> paused s"
  shows "paused s' \<and> pauses s' = pauses s"
proof (cases "existsSync w")
  case False
  with assms(1) have "s' = snd (checkError (new_Error (''file not found '' @ to_string JUndefined)) s)"
    by (auto simp: start_run_def)
  then show ?thesis using assms(2) by (simp only: checkError_paused checkError_running simp_thms)
next
  case True
  show ?thesis
  proof (cases "start_try P w s")
    case None
    with True assms(1) show ?thesis by (simp add: start_run_def)
  next
    case (Some res)
    obtain r1 s1 where res: "res = (r1, s1)" by (cases res)
    from start_try_keeps [OF Some [unfolded res]]
    obtain s'' where k: "keeps s s''"
      and alt: "(\<exists>e. r1 = Thrown e \<and> s1 = s'') \<or> (r1 = Returned () \<and> s1 = checkFinish s'')"
      by blast
    have run: "\<not> paused s''" "pauses s'' = pauses s" using k assms(2) by (simp_all add: keeps_def)
    show ?thesis
    proof (cases r1)
      case (Returned u)
      with alt have "s1 = checkFinish s''" by auto
      moreover from True assms(1) Some res Returned have "s' = s1" by (simp add: start_run_def)
      ultimately show ?thesis using run by (simp add: checkFinish_paused checkFinish_running)
    next
      case (Thrown ex)
      with alt have "s1 = s''" by auto
      moreover from True assms(1) Some res Thrown have "s' = snd (checkError ex s1)"
        by (auto simp: start_run_def)
      ultimately show ?thesis using run by (simp add: checkError_paused checkError_running)
    qed
  qed
qed

text \<open>
  Claim C9. After \<^verbatim>\<open>_checkFinish\<close>, after \<^verbatim>\<open>_checkError\<close> and after \<^verbatim>\<open>pause()\<close> the flag is
  true; \<^verbatim>\<open>resume\<close> leaves it as it was, \<^verbatim>\<open>isPaused\<close> only reads it, a new transport has it
  true. \<^verbatim>\<open>start()\<close> is the rest of the method run on the state with the flag false:
  whatever flag it finds, it emits no \<^verbatim>\<open>pause\<close> notification, and whenever it returns the
  flag is true again. The reset is what decides this: on a missing file the rest of the
  method, run with the flag true, emits \<^verbatim>\<open>pause\<close>, and \<^verbatim>\<open>start()\<close> emits \<^verbatim>\<open>error\<close>.
\<close>
theorem paused_flag_discipline:
  "paused (checkFinish s)
   \<and> paused (snd (checkError err s))
   \<and> paused (pause s)
   \<and> paused (snd (resume w remainParts s)) = paused s
   \<and> isPaused s = paused s
   \<and> paused (MultiTransport uuid0 bucketName0 objectKey0 localPath0 uploadId0)
   \<and> start_session P w s = start_session P w (s\<lparr>paused := False\<rparr>)
   \<and> (\<forall>r s'. start_session P w s = Some (r, s') \<longrightarrow> paused s')
   \<and> start_session P w s = start_run P w (s\<lparr>paused := False\<rparr>)
   \<and> \<not> paused (s\<lparr>paused := False\<rparr>)
   \<and> (\<forall>r s'. start_session P w s = Some (r, s') \<longrightarrow> pauses s' = pauses s)
   \<and> (local_file w = None \<longrightarrow>
        start_run P w (s\<lparr>paused := True\<rparr>)
          = Some (Returned (), emit (EvPause (uuid s)) (s\<lparr>paused := True\<rparr>))
        \<and> start_session P w s
          = Some (Returned (),
                  emit (EvError (uuid s) (JStr ''file not found undefined'')) (s\<lparr>paused := True\<rparr>)))"
proof -
  have p: "paused (pause s)" by (simp add: pause_def emit_def Let_def)
  have r: "paused (snd (resume w remainParts s)) = paused s"
    using resume_keeps [of s w remainParts] by (simp add: keeps_def)
  have idem: "start_session P w s = start_session P w (s\<lparr>paused := False\<rparr>)"
    by (simp add: start_session_def)
  have c: "paused (MultiTransport uuid0 bucketName0 objectKey0 localPath0 uploadId0)"
    by (simp add: MultiTransport_def)
  have fin: "paused s' \<and> pauses s' = pauses s" if "start_session P w s = Some (r, s')" for r s'
  proof -
    from that have "start_run P w (s\<lparr>paused := False\<rparr>) = Some (r, s')"
      by (simp add: start_session_def)
    from start_run_running [OF this] show ?thesis by (simp add: pauses_def)
  qed
  have first: "start_session P w s = start_run P w (s\<lparr>paused := False\<rparr>)"
    by (simp add: start_session_def)
  have missing: "start_run P w (s\<lparr>paused := True\<rparr>)
          = Some (Returned (), emit (EvPause (uuid s)) (s\<lparr>paused := True\<rparr>))
        \<and> start_session P w s
          = Some (Returned (),
                  emit (EvError (uuid s) (JStr ''file not found undefined'')) (s\<lparr>paused := True\<rparr>))"
    if "local_file w = None"
    using that
    by (simp add: start_session_def start_run_def existsSync_def checkError_def new_Error_def emit_def)
  from p r idem c fin first missing show ?thesis
    by (simp only: checkFinish_paused checkError_paused isPaused_def simp_thms) simp
qed


lemma start_full_run:
  "\<exists>s'. start_session demo_platform
            (demo_world (Some demo_file) (Thrown (Obj False [(''status_code'', JNum 404)])))
            demo_session = Some (Returned (), s')
        \<and> emitted s' = [EvStart ''test_uuid'' (Some ''upload-1'') ''/tmp/10m'',
                         EvFinish ''test_uuid'' ''/tmp/10m'']
        \<and> uploadedSize s' = Some (Num 47185920)
        \<and> length (calls s') = 8"
  by (simp add: demo_defs start_session_def start_run_def start_try_def start_upload_def
      existsSync_def checkFinish_def emit_def checkConsistency_def statSync_def fetchMetadata_def
      initUploadId_def fetchParts_def completeUpload_def computedFileMD5_def invoke_def
      decompose_def averagePartSize_def minPartSize_def kPartSize_def
      js_sub_def number_defs decompose_loop.simps bool_to_number_def not_number_def
      call_def header_number_def js_strict_eq_def truthy_str_def Let_def)

text \<open>The flag theorem on a run of \<^verbatim>\<open>start()\<close> that uploads a 45 MiB file in three
  parts, and on a missing file.\<close>
theorem paused_flag_discipline_witness:
  "paused (checkFinish demo_session)
   \<and> paused (pause (demo_session\<lparr>paused := False\<rparr>))
   \<and> (\<exists>r s'. start_session demo_platform
               (demo_world (Some demo_file) (Thrown (Obj False [(''status_code'', JNum 404)])))
               demo_session = Some (r, s')
            \<and> paused s' \<and> pauses s' = pauses demo_session)
   \<and> paused demo_session
   \<and> local_file (demo_world None (Thrown (Prim JNull))) = None
   \<and> start_run demo_platform (demo_world None (Thrown (Prim JNull))) (demo_session\<lparr>paused := True\<rparr>)
       = Some (Returned (), emit (EvPause (uuid demo_session)) (demo_session\<lparr>paused := True\<rparr>))
   \<and> start_session demo_platform (demo_world None (Thrown (Prim JNull))) demo_session
       = Some (Returned (),
               emit (EvError (uuid demo_session) (JStr ''file not found undefined''))
                 (demo_session\<lparr>paused := True\<rparr>))"
proof -
  let ?w = "demo_world (Some demo_file) (Thrown (Obj False [(''status_code'', JNum 404)]))"
  let ?none = "demo_world None (Thrown (Prim JNull))"
  note run_inst = paused_flag_discipline
      [of demo_session "Prim JNull" ?w "[]" "[]" "[]" "[]" "[]" None demo_platform]
  note none_inst = paused_flag_discipline
      [of demo_session "Prim JNull" ?none "[]" "[]" "[]" "[]" "[]" None demo_platform]
  note reset_inst = paused_flag_discipline
      [of "demo_session\<lparr>paused := False\<rparr>" "Prim JNull" ?w "[]" "[]" "[]" "[]" "[]" None demo_platform]
  obtain s' where run: "start_session demo_platform ?w demo_session = Some (Returned (), s')"
    using start_full_run by blast
  have "paused s' \<and> pauses s' = pauses demo_session" using run run_inst by blast
  with run have a: "\<exists>r s'. start_session demo_platform ?w demo_session = Some (r, s')
            \<and> paused s' \<and> pauses s' = pauses demo_session" by blast
  have b: "paused (checkFinish demo_session)" using run_inst by blast
  have c: "paused (pause (demo_session\<lparr>paused := False\<rparr>))" using reset_inst by blast
  have d: "paused demo_session" by (simp add: demo_session_def MultiTransport_def)
  have e: "local_file ?none = None" by (simp add: demo_world_def)
  from none_inst e
  have f: "start_run demo_platform ?none (demo_session\<lparr>paused := True\<rparr>)
       = Some (Returned (), emit (EvPause (uuid demo_session)) (demo_session\<lparr>paused := True\<rparr>))
   \<and> start_session demo_platform ?none demo_session
       = Some (Returned (),
               emit (EvError (uuid demo_session) (JStr ''file not found undefined''))
                 (demo_session\<lparr>paused := True\<rparr>))" by blast
  from a b c d e f show ?thesis by blast
qed

end
